theory Spec2Isabelle
  imports Complex_Main "HOL-Library.Sublist" "HOL-Library.AList"
begin

section \<open>Paths and the file system\<close>

text \<open>
  A path is the list of its segments, counted from the root of the file system:
  \<^verbatim>\<open>/home/u/a.txt\<close> is \<open>[''home'', ''u'', ''a.txt'']\<close>. \<^verbatim>\<open>os.path.join\<close> of a path and a
  relative path is \<open>@\<close>, \<^verbatim>\<open>os.path.basename\<close> is the last segment, \<^verbatim>\<open>os.path.dirname\<close>
  is \<open>butlast\<close>, and \<^verbatim>\<open>os.path.relpath(p, d)\<close> of a path below \<open>d\<close> drops the segments of
  \<open>d\<close>.
\<close>

type_synonym path = "string list"

text \<open>\<^verbatim>\<open>name.startswith(".")\<close>\<close>

definition startswith_dot :: "string \<Rightarrow> bool" where
  "startswith_dot s = (case s of [] \<Rightarrow> False | c # _ \<Rightarrow> c = CHR ''.'')"

text \<open>\<^verbatim>\<open>os.path.basename\<close>: the empty name for the root.\<close>

definition basename :: "path \<Rightarrow> string" where
  "basename p = (if p = [] then [] else last p)"

text \<open>
  A file system is a tree. A file has a size in bytes and a modification time in seconds
  (Python reads it as a float; the model keeps it as a rational). \<open>Broken\<close> is a
  directory entry that \<^verbatim>\<open>os.walk\<close> lists among the files of its directory and whose
  \<^verbatim>\<open>stat\<close> raises \<^verbatim>\<open>OSError\<close> (a dangling link, an entry that vanished, no permission).
\<close>

datatype node = File nat rat | Broken | Dir "(string \<times> node) list"

fun is_Dir :: "node \<Rightarrow> bool" where
  "is_Dir (Dir es) = True"
| "is_Dir _ = False"

fun lookup :: "node \<Rightarrow> path \<Rightarrow> node option" where
  "lookup n [] = Some n"
| "lookup n (s # ss) =
     (case n of
        Dir es \<Rightarrow> (case map_of es s of None \<Rightarrow> None | Some c \<Rightarrow> lookup c ss)
      | _ \<Rightarrow> None)"

text \<open>The exception classes the handlers of the program tell apart.\<close>

datatype exn = PermissionError | OSError | OtherError

text \<open>\<^verbatim>\<open>os.path.exists\<close>: false where \<^verbatim>\<open>stat\<close> fails.\<close>

definition exists_path :: "node \<Rightarrow> path \<Rightarrow> bool" where
  "exists_path tree p =
     (case lookup tree p of None \<Rightarrow> False | Some Broken \<Rightarrow> False | Some _ \<Rightarrow> True)"

text \<open>\<^verbatim>\<open>os.path.getsize\<close> and \<^verbatim>\<open>os.path.getmtime\<close> raise \<^verbatim>\<open>OSError\<close> where \<^verbatim>\<open>stat\<close> fails.
  A directory has a size and a time of its own, which the model does not keep: it reads
  them as 0.\<close>

definition getsize :: "node \<Rightarrow> path \<Rightarrow> exn + nat" where
  "getsize tree p =
     (case lookup tree p of
        Some (File sz mt) \<Rightarrow> Inr sz
      | Some (Dir es) \<Rightarrow> Inr 0
      | _ \<Rightarrow> Inl OSError)"

definition getmtime :: "node \<Rightarrow> path \<Rightarrow> exn + rat" where
  "getmtime tree p =
     (case lookup tree p of
        Some (File sz mt) \<Rightarrow> Inr mt
      | Some (Dir es) \<Rightarrow> Inr 0
      | _ \<Rightarrow> Inl OSError)"

text \<open>
  \<^verbatim>\<open>os.walk(top)\<close>, top down: one triple for a directory, holding its path and the names
  of its files, then the triples of its subdirectories in their order. The caller's
  \<^verbatim>\<open>dirs[:] = [d for d in dirs if not d.startswith(".")]\<close> takes the hidden
  subdirectories out before the walk descends, when \<open>sh\<close> (skip hidden) is set.
  Walking something that is not a directory yields nothing.
\<close>

fun walk :: "bool \<Rightarrow> path \<Rightarrow> node \<Rightarrow> (path \<times> string list) list"
  and walk_dirs :: "bool \<Rightarrow> path \<Rightarrow> (string \<times> node) list \<Rightarrow> (path \<times> string list) list"
where
  "walk sh rt (Dir es) =
     (rt, map fst (filter (\<lambda>e. \<not> is_Dir (snd e)) es)) # walk_dirs sh rt es"
| "walk sh rt (File sz mt) = []"
| "walk sh rt Broken = []"
| "walk_dirs sh rt [] = []"
| "walk_dirs sh rt (e # es) =
     (if is_Dir (snd e) \<and> \<not> (sh \<and> startswith_dot (fst e))
      then walk sh (rt @ [fst e]) (snd e) else [])
     @ walk_dirs sh rt es"

text \<open>\<^verbatim>\<open>os.walk(source_dir)\<close> from the root of the file system.\<close>

definition os_walk :: "bool \<Rightarrow> node \<Rightarrow> path \<Rightarrow> (path \<times> string list) list" where
  "os_walk sh tree rt =
     (case lookup tree rt of None \<Rightarrow> [] | Some n \<Rightarrow> walk sh rt n)"

section \<open>The local engine: \<^verbatim>\<open>BackupManager\<close>\<close>

text \<open>The sources and the flags that both engines take, then the target of the local
  one.\<close>

record options =
  source_dirs :: "path list"
  source_files :: "path list"
  incremental :: bool
  skip_hidden :: bool
  compress :: bool
  preserve_structure :: bool

record config = options +
  target_dir :: path

text \<open>
  The two counters that the dictionaries of both engines hold, then \<^verbatim>\<open>self.stats\<close> of
  the local one (its two times are left out). It has no counter of failed files.
\<close>

record counters =
  total_files :: nat
  files_copied :: nat

record stats = counters +
  files_skipped :: nat
  total_size :: nat

datatype src_type = SrcDirectory | SrcFile

text \<open>An item of the manifest: the dictionary \<^verbatim>\<open>_collect_files\<close> appends. The key
  \<^verbatim>\<open>source_root\<close> is there for the items of a source directory only.\<close>

record file_info =
  source_path :: path
  relative_path :: path
  file_size :: nat
  source_type :: src_type
  source_root :: "path option"

text \<open>The calls of \<^verbatim>\<open>log_callback\<close>, by message and level.\<close>

datatype level = info | warning | error | success

datatype message =
    MsgStart | MsgSources nat nat | MsgTarget path
  | MsgDirNotFound path | MsgFileNotFound path | MsgStatFailed path exn
  | MsgNoFiles | MsgFound nat
  | MsgStopped | MsgCopiedSoFar nat nat
  | MsgNoPermission path exn | MsgCopyError path exn
  | MsgArchiveCreate path | MsgArchiveError path exn | MsgArchiveDone path
  | MsgDone | MsgStatistics nat nat | MsgFailed exn

text \<open>The lines of \<^verbatim>\<open>backup_log.txt\<close>.\<close>

datatype log_line =
    LineStarted | LineTotal nat | LineRule
  | LineSkipped path | LineCopied path path
  | LineFinished | LineCopiedTotal nat | LineSkippedTotal nat

text \<open>
  The stop flag is a \<^verbatim>\<open>threading.Event\<close> that another thread sets and nothing clears:
  the engine only polls it. \<open>stop_at = Some k\<close> says that the poll number \<open>k\<close> (counted
  from 0 over the life of the manager) is the first one to find it set.
\<close>

definition is_set :: "nat option \<Rightarrow> nat \<Rightarrow> bool" where
  "is_set stop_at t = (case stop_at of None \<Rightarrow> False | Some k \<Rightarrow> k \<le> t)"

text \<open>
  What a file operation of the copy loop does beyond what the file system decides:
  \<open>None\<close> is a normal return. One record for each item, by its index in the manifest.
\<close>

record faults =
  makedirs_exn :: "exn option"
  copy_exn :: "exn option"
  log_write_exn :: "exn option"
  progress_exn :: "exn option"

definition no_faults :: faults where
  "no_faults = \<lparr>makedirs_exn = None, copy_exn = None, log_write_exn = None,
     progress_exn = None\<rparr>"

text \<open>What the set-up and the closing steps of a run do, in the same way.\<close>

record run_faults =
  backup_dir_exn :: "exn option"
  metadata_exn :: "exn option"
  log_open_exn :: "exn option"
  footer_exn :: "exn option"
  save_info_exn :: "exn option"

definition no_run_faults :: run_faults where
  "no_run_faults = \<lparr>backup_dir_exn = None, metadata_exn = None, log_open_exn = None,
     footer_exn = None, save_info_exn = None\<rparr>"

text \<open>
  The manager and the world it runs in: its counters, the file system, the calls of the
  two callbacks, the lines of \<^verbatim>\<open>backup_log.txt\<close>, the entries of \<^verbatim>\<open>backup.zip\<close>, the
  document \<^verbatim>\<open>last_backup.json\<close> (the path of the backup and the counters) and the number of
  polls of the stop flag so far.
\<close>

record bstate =
  stats :: stats
  fs :: node
  events :: "(message \<times> level) list"
  progress :: "(nat \<times> nat \<times> path) list"
  log_file :: "log_line list"
  archive :: "(path \<times> path) list"
  last_backup :: "(path \<times> stats) option"
  polls :: nat

definition log_event :: "message \<Rightarrow> level \<Rightarrow> bstate \<Rightarrow> bstate" where
  "log_event m l s = s\<lparr>events := events s @ [(m, l)]\<rparr>"

definition poll :: "bstate \<Rightarrow> bstate" where
  "poll s = s\<lparr>polls := Suc (polls s)\<rparr>"

subsection \<open>\<^verbatim>\<open>_collect_files\<close>\<close>

text \<open>
  The body of \<^verbatim>\<open>for file in files\<close> for one directory \<open>rt\<close> of the walk of
  \<open>source_dir\<close>. The first component of the result says that the flag was found set, where
  the source returns the manifest as it is.
\<close>

fun collect_walk_files ::
  "config \<Rightarrow> nat option \<Rightarrow> path \<Rightarrow> path \<Rightarrow> string list \<Rightarrow> file_info list \<times> bstate
    \<Rightarrow> bool \<times> file_info list \<times> bstate"
where
  "collect_walk_files cfg stop_at source_dir rt [] (all_files, s) = (False, all_files, s)"
| "collect_walk_files cfg stop_at source_dir rt (f # files) (all_files, s) =
     (if is_set stop_at (polls s) then (True, all_files, poll s)
      else
        let s = poll s; file_path = rt @ [f] in
        if skip_hidden cfg \<and> startswith_dot f
        then collect_walk_files cfg stop_at source_dir rt files (all_files, s)
        else
          (case getsize (fs s) file_path of
             Inr sz \<Rightarrow>
               collect_walk_files cfg stop_at source_dir rt files
                 (all_files @
                    [\<lparr>source_path = file_path,
                      relative_path = drop (length source_dir) file_path,
                      file_size = sz, source_type = SrcDirectory,
                      source_root = Some source_dir\<rparr>],
                  s\<lparr>stats := (stats s)\<lparr>total_size := total_size (stats s) + sz\<rparr>\<rparr>)
           | Inl e \<Rightarrow>
               collect_walk_files cfg stop_at source_dir rt files
                 (all_files, log_event (MsgStatFailed file_path e) warning s)))"

text \<open>\<^verbatim>\<open>for root, dirs, files in os.walk(source_dir)\<close>\<close>

fun collect_walk ::
  "config \<Rightarrow> nat option \<Rightarrow> path \<Rightarrow> (path \<times> string list) list \<Rightarrow> file_info list \<times> bstate
    \<Rightarrow> bool \<times> file_info list \<times> bstate"
where
  "collect_walk cfg stop_at source_dir [] (all_files, s) = (False, all_files, s)"
| "collect_walk cfg stop_at source_dir (w # ws) (all_files, s) =
     (case collect_walk_files cfg stop_at source_dir (fst w) (snd w) (all_files, s) of
        (True, r) \<Rightarrow> (True, r)
      | (False, r) \<Rightarrow> collect_walk cfg stop_at source_dir ws r)"

text \<open>\<^verbatim>\<open>for source_dir in self.source_dirs\<close>: a \<^verbatim>\<open>break\<close> leaves the loop with \<open>False\<close>
  (the loop over the loose files follows), the \<^verbatim>\<open>return\<close> of the inner loop with
  \<open>True\<close>.\<close>

fun collect_dirs ::
  "config \<Rightarrow> nat option \<Rightarrow> path list \<Rightarrow> file_info list \<times> bstate
    \<Rightarrow> bool \<times> file_info list \<times> bstate"
where
  "collect_dirs cfg stop_at [] (all_files, s) = (False, all_files, s)"
| "collect_dirs cfg stop_at (source_dir # ds) (all_files, s) =
     (if is_set stop_at (polls s) then (False, all_files, poll s)
      else
        let s = poll s in
        if \<not> exists_path (fs s) source_dir
        then collect_dirs cfg stop_at ds
               (all_files, log_event (MsgDirNotFound source_dir) warning s)
        else
          (case collect_walk cfg stop_at source_dir
                  (os_walk (skip_hidden cfg) (fs s) source_dir) (all_files, s) of
             (True, r) \<Rightarrow> (True, r)
           | (False, r) \<Rightarrow> collect_dirs cfg stop_at ds r))"

text \<open>\<^verbatim>\<open>for file_path in self.source_files\<close>: no test of \<^verbatim>\<open>skip_hidden\<close> here.\<close>

fun collect_loose ::
  "nat option \<Rightarrow> path list \<Rightarrow> file_info list \<times> bstate \<Rightarrow> file_info list \<times> bstate"
where
  "collect_loose stop_at [] (all_files, s) = (all_files, s)"
| "collect_loose stop_at (file_path # fps) (all_files, s) =
     (if is_set stop_at (polls s) then (all_files, poll s)
      else
        let s = poll s in
        if \<not> exists_path (fs s) file_path
        then collect_loose stop_at fps
               (all_files, log_event (MsgFileNotFound file_path) warning s)
        else
          (case getsize (fs s) file_path of
             Inr sz \<Rightarrow>
               collect_loose stop_at fps
                 (all_files @
                    [\<lparr>source_path = file_path, relative_path = [basename file_path],
                      file_size = sz, source_type = SrcFile, source_root = None\<rparr>],
                  s\<lparr>stats := (stats s)\<lparr>total_size := total_size (stats s) + sz\<rparr>\<rparr>)
           | Inl e \<Rightarrow>
               collect_loose stop_at fps
                 (all_files, log_event (MsgStatFailed file_path e) warning s)))"

definition collect_files :: "config \<Rightarrow> nat option \<Rightarrow> bstate \<Rightarrow> file_info list \<times> bstate" where
  "collect_files cfg stop_at s =
     (case collect_dirs cfg stop_at (source_dirs cfg) ([], s) of
        (True, r) \<Rightarrow> r
      | (False, r) \<Rightarrow> collect_loose stop_at (source_files cfg) r)"

text \<open>A manager as \<^verbatim>\<open>__init__\<close> leaves it, over a file system.\<close>

definition init_stats :: stats where
  "init_stats = \<lparr>total_files = 0, files_copied = 0, files_skipped = 0, total_size = 0\<rparr>"

definition init_state :: "node \<Rightarrow> bstate" where
  "init_state tree = \<lparr>stats = init_stats, fs = tree, events = [], progress = [],
     log_file = [], archive = [], last_backup = None, polls = 0\<rparr>"

subsection \<open>The file operations of the copy loop\<close>

text \<open>\<^verbatim>\<open>os.makedirs(p, exist_ok=True)\<close>: every missing directory on the way is made; a
  file in the way is an \<^verbatim>\<open>OSError\<close>.\<close>

fun makedirs :: "node \<Rightarrow> path \<Rightarrow> exn + node" where
  "makedirs n [] = (case n of Dir es \<Rightarrow> Inr n | _ \<Rightarrow> Inl OSError)"
| "makedirs n (s # ss) =
     (case n of
        Dir es \<Rightarrow>
          (case makedirs (case map_of es s of None \<Rightarrow> Dir [] | Some c \<Rightarrow> c) ss of
             Inl e \<Rightarrow> Inl e
           | Inr c \<Rightarrow> Inr (Dir (AList.update s c es)))
      | _ \<Rightarrow> Inl OSError)"

text \<open>Writing a file at a path whose parent directory is there.\<close>

fun write_file :: "node \<Rightarrow> path \<Rightarrow> node \<Rightarrow> exn + node" where
  "write_file n [] new = Inl OSError"
| "write_file n [s] new =
     (case n of
        Dir es \<Rightarrow>
          (case map_of es s of
             Some (Dir ds) \<Rightarrow> Inl OSError
           | _ \<Rightarrow> Inr (Dir (AList.update s new es)))
      | _ \<Rightarrow> Inl OSError)"
| "write_file n (s # ss) new =
     (case n of
        Dir es \<Rightarrow>
          (case map_of es s of
             None \<Rightarrow> Inl OSError
           | Some c \<Rightarrow>
               (case write_file c ss new of
                  Inl e \<Rightarrow> Inl e
                | Inr c' \<Rightarrow> Inr (Dir (AList.update s c' es))))
      | _ \<Rightarrow> Inl OSError)"

text \<open>
  \<^verbatim>\<open>shutil.copy2(src, dst)\<close>: the content and the modification time of \<open>src\<close> go to
  \<open>dst\<close>, or into \<open>dst\<close> under the base name of \<open>src\<close> when \<open>dst\<close> is a directory.
  A source that is not a readable file, a copy of a file onto itself and a destination
  that cannot be written are kinds of \<^verbatim>\<open>OSError\<close>.
\<close>

definition copy2 :: "node \<Rightarrow> path \<Rightarrow> path \<Rightarrow> exn + node" where
  "copy2 tree src dst =
     (let dst = (case lookup tree dst of Some (Dir es) \<Rightarrow> dst @ [basename src] | _ \<Rightarrow> dst)
      in case lookup tree src of
           Some (File sz mt) \<Rightarrow>
             if src = dst then Inl OSError else write_file tree dst (File sz mt)
         | _ \<Rightarrow> Inl OSError)"

subsection \<open>\<^verbatim>\<open>_should_skip_file\<close>\<close>

definition should_skip_file :: "node \<Rightarrow> path \<Rightarrow> path \<Rightarrow> bool" where
  "should_skip_file tree source_path' target_path =
     (if \<not> exists_path tree target_path then False
      else
        (case getmtime tree source_path' of
           Inl e \<Rightarrow> False
         | Inr source_mtime \<Rightarrow>
             (case getmtime tree target_path of
                Inl e \<Rightarrow> False
              | Inr target_mtime \<Rightarrow> target_mtime \<ge> source_mtime)))"

subsection \<open>\<^verbatim>\<open>_copy_files\<close>\<close>

text \<open>\<^verbatim>\<open>source_root.replace(":", "_").lstrip("/")\<close>: the segments of a path are already
  relative to the directory they are joined to.\<close>

definition sanitize_root :: "path \<Rightarrow> path" where
  "sanitize_root r = map (map (\<lambda>c. if c = CHR '':'' then CHR ''_'' else c)) r"

text \<open>The target of an item. Reading the key \<^verbatim>\<open>source_root\<close> of an item that has none is
  a \<^verbatim>\<open>KeyError\<close>.\<close>

definition target_path_of :: "config \<Rightarrow> path \<Rightarrow> file_info \<Rightarrow> exn + path" where
  "target_path_of cfg backup_path file_info =
     (if preserve_structure cfg \<and> source_type file_info = SrcDirectory
      then (case source_root file_info of
              None \<Rightarrow> Inl OtherError
            | Some r \<Rightarrow> Inr (backup_path @ sanitize_root r @ relative_path file_info))
      else Inr (backup_path @ [basename (source_path file_info)]))"

definition inc_skipped :: "bstate \<Rightarrow> bstate" where
  "inc_skipped s = s\<lparr>stats := (stats s)\<lparr>files_skipped := files_skipped (stats s) + 1\<rparr>\<rparr>"

definition inc_copied :: "bstate \<Rightarrow> bstate" where
  "inc_copied s = s\<lparr>stats := (stats s)\<lparr>files_copied := files_copied (stats s) + 1\<rparr>\<rparr>"

text \<open>
  The two handlers of the loop body, \<^verbatim>\<open>except PermissionError\<close> and
  \<^verbatim>\<open>except Exception\<close>: a warning, and \<^verbatim>\<open>files_skipped += 1\<close>. The log callback is
  taken to return normally (the handlers themselves call it).
\<close>

definition copy_handler :: "file_info \<Rightarrow> exn \<Rightarrow> bstate \<Rightarrow> bstate" where
  "copy_handler file_info e s =
     inc_skipped
       (log_event
          (case e of
             PermissionError \<Rightarrow> MsgNoPermission (source_path file_info) e
           | _ \<Rightarrow> MsgCopyError (source_path file_info) e)
          warning s)"

text \<open>
  The body of the loop for the item of index \<open>i\<close>, of \<open>n\<close>, after the poll of the stop
  flag: the \<^verbatim>\<open>try\<close> block up to the first operation that raises, then the handler. The
  pair holds \<^verbatim>\<open>copied_count\<close> and the state. A progress callback is given. A copy that
  raises leaves the file system as it was.
\<close>

definition copy_item ::
  "config \<Rightarrow> path \<Rightarrow> nat \<Rightarrow> nat \<Rightarrow> file_info \<Rightarrow> faults \<Rightarrow> nat \<times> bstate \<Rightarrow> nat \<times> bstate"
where
  "copy_item cfg backup_path n i file_info flt cs =
     (let copied_count = fst cs; s = snd cs in
      case target_path_of cfg backup_path file_info of
        Inl e \<Rightarrow> (copied_count, copy_handler file_info e s)
      | Inr target_path \<Rightarrow>
          (case (case makedirs_exn flt of
                   Some e \<Rightarrow> Inl e
                 | None \<Rightarrow> makedirs (fs s) (butlast target_path)) of
             Inl e \<Rightarrow> (copied_count, copy_handler file_info e s)
           | Inr tree \<Rightarrow>
               let s = s\<lparr>fs := tree\<rparr> in
               if incremental cfg
                  \<and> should_skip_file (fs s) (source_path file_info) target_path
               then
                 let s = inc_skipped s in
                 (case log_write_exn flt of
                    Some e \<Rightarrow> (copied_count, copy_handler file_info e s)
                  | None \<Rightarrow>
                      (copied_count,
                       s\<lparr>log_file := log_file s @ [LineSkipped (source_path file_info)]\<rparr>))
               else
                 (case (case copy_exn flt of
                          Some e \<Rightarrow> Inl e
                        | None \<Rightarrow> copy2 (fs s) (source_path file_info) target_path) of
                    Inl e \<Rightarrow> (copied_count, copy_handler file_info e s)
                  | Inr tree \<Rightarrow>
                      let s = inc_copied (s\<lparr>fs := tree\<rparr>);
                          copied_count = copied_count + 1
                      in
                      (case log_write_exn flt of
                         Some e \<Rightarrow> (copied_count, copy_handler file_info e s)
                       | None \<Rightarrow>
                           let s = s\<lparr>log_file := log_file s
                                      @ [LineCopied (source_path file_info) target_path]\<rparr>;
                               s = s\<lparr>progress := progress s
                                      @ [(i + 1, n, source_path file_info)]\<rparr>
                           in
                           (case progress_exn flt of
                              Some e \<Rightarrow> (copied_count, copy_handler file_info e s)
                            | None \<Rightarrow>
                                (copied_count,
                                 if copied_count mod 10 = 0
                                 then log_event (MsgCopiedSoFar copied_count n) info s
                                 else s))))))"

text \<open>\<^verbatim>\<open>for i, file_info in enumerate(files)\<close>, from the index \<open>i\<close> on.\<close>

fun copy_loop ::
  "config \<Rightarrow> nat option \<Rightarrow> (nat \<Rightarrow> faults) \<Rightarrow> path \<Rightarrow> nat \<Rightarrow> nat \<Rightarrow> file_info list
    \<Rightarrow> nat \<times> bstate \<Rightarrow> nat \<times> bstate"
where
  "copy_loop cfg stop_at flt backup_path n i [] cs = cs"
| "copy_loop cfg stop_at flt backup_path n i (file_info # files) cs =
     (if is_set stop_at (polls (snd cs))
      then (fst cs, log_event MsgStopped warning (poll (snd cs)))
      else copy_loop cfg stop_at flt backup_path n (Suc i) files
             (copy_item cfg backup_path n i file_info (flt i) (fst cs, poll (snd cs))))"

text \<open>
  \<^verbatim>\<open>_copy_files\<close>. The first component is the exception that leaves the function, if any:
  writing the metadata document, opening the log and writing its head, and writing its
  foot are outside the \<^verbatim>\<open>try\<close> of the loop. The two documents are kept apart from the
  tree \<open>fs\<close>.
\<close>

definition copy_files ::
  "config \<Rightarrow> nat option \<Rightarrow> run_faults \<Rightarrow> (nat \<Rightarrow> faults) \<Rightarrow> path \<Rightarrow> file_info list
    \<Rightarrow> bstate \<Rightarrow> exn option \<times> bstate"
where
  "copy_files cfg stop_at rf flt backup_path files s =
     (case metadata_exn rf of
        Some e \<Rightarrow> (Some e, s)
      | None \<Rightarrow>
          (case log_open_exn rf of
             Some e \<Rightarrow> (Some e, s)
           | None \<Rightarrow>
               let s = s\<lparr>log_file := [LineStarted, LineTotal (length files), LineRule]\<rparr>;
                   s = snd (copy_loop cfg stop_at flt backup_path (length files) 0 files (0, s))
               in
               (case footer_exn rf of
                  Some e \<Rightarrow> (Some e, s)
                | None \<Rightarrow>
                    (None,
                     s\<lparr>log_file := log_file s
                         @ [LineRule, LineFinished,
                            LineCopiedTotal (files_copied (stats s)),
                            LineSkippedTotal (files_skipped (stats s))]\<rparr>))))"

subsection \<open>\<^verbatim>\<open>_create_compressed_backup\<close>\<close>

definition archive_handler :: "file_info \<Rightarrow> exn \<Rightarrow> bstate \<Rightarrow> bstate" where
  "archive_handler file_info e s =
     inc_skipped (log_event (MsgArchiveError (source_path file_info) e) warning s)"

text \<open>The body of the loop: \<^verbatim>\<open>zipf.write(source_path, arcname)\<close> needs a source that
  \<^verbatim>\<open>stat\<close> finds.\<close>

definition archive_item ::
  "config \<Rightarrow> nat \<Rightarrow> nat \<Rightarrow> file_info \<Rightarrow> faults \<Rightarrow> bstate \<Rightarrow> bstate"
where
  "archive_item cfg n i file_info flt s =
     (case target_path_of cfg [] file_info of
        Inl e \<Rightarrow> archive_handler file_info e s
      | Inr arcname \<Rightarrow>
          (case (case copy_exn flt of
                   Some e \<Rightarrow> Some e
                 | None \<Rightarrow>
                     if exists_path (fs s) (source_path file_info) then None
                     else Some OSError) of
             Some e \<Rightarrow> archive_handler file_info e s
           | None \<Rightarrow>
               let s = inc_copied
                         (s\<lparr>archive := archive s @ [(source_path file_info, arcname)]\<rparr>);
                   s = s\<lparr>progress := progress s @ [(i + 1, n, source_path file_info)]\<rparr>
               in
               (case progress_exn flt of
                  Some e \<Rightarrow> archive_handler file_info e s
                | None \<Rightarrow> s)))"

fun archive_loop ::
  "config \<Rightarrow> nat option \<Rightarrow> (nat \<Rightarrow> faults) \<Rightarrow> nat \<Rightarrow> nat \<Rightarrow> file_info list \<Rightarrow> bstate
    \<Rightarrow> bstate"
where
  "archive_loop cfg stop_at flt n i [] s = s"
| "archive_loop cfg stop_at flt n i (file_info # files) s =
     (if is_set stop_at (polls s) then poll s
      else archive_loop cfg stop_at flt n (Suc i) files
             (archive_item cfg n i file_info (flt i) (poll s)))"

text \<open>Opening the archive and writing the metadata entry, then the loop, then closing
  the archive: the first and the last are outside the \<^verbatim>\<open>try\<close> of the loop.\<close>

definition create_compressed_backup ::
  "config \<Rightarrow> nat option \<Rightarrow> run_faults \<Rightarrow> (nat \<Rightarrow> faults) \<Rightarrow> path \<Rightarrow> file_info list
    \<Rightarrow> bstate \<Rightarrow> exn option \<times> bstate"
where
  "create_compressed_backup cfg stop_at rf flt backup_path files s =
     (let archive_path = backup_path @ [''backup.zip''];
          s = log_event (MsgArchiveCreate archive_path) info s
      in
      case log_open_exn rf of
        Some e \<Rightarrow> (Some e, s)
      | None \<Rightarrow>
          (case metadata_exn rf of
             Some e \<Rightarrow> (Some e, s)
           | None \<Rightarrow>
               let s = archive_loop cfg stop_at flt (length files) 0 files
                         (s\<lparr>archive := []\<rparr>)
               in
               (case footer_exn rf of
                  Some e \<Rightarrow> (Some e, s)
                | None \<Rightarrow> (None, log_event (MsgArchiveDone archive_path) success s))))"

subsection \<open>\<^verbatim>\<open>start_backup\<close>\<close>

text \<open>
  \<open>now\<close> is the text \<^verbatim>\<open>datetime.now().strftime('%Y%m%d_%H%M%S')\<close> at the call: the backup
  goes to \<^verbatim>\<open><target_dir>/backup_<now>\<close>. The first component of the result is the
  exception that the function raises again after the log of the error, if any; \<open>None\<close> is
  a normal return.
\<close>

definition backup_path_of :: "config \<Rightarrow> string \<Rightarrow> path" where
  "backup_path_of cfg now = target_dir cfg @ [''backup_'' @ now]"

definition start_backup ::
  "config \<Rightarrow> nat option \<Rightarrow> run_faults \<Rightarrow> (nat \<Rightarrow> faults) \<Rightarrow> string \<Rightarrow> bstate
    \<Rightarrow> exn option \<times> bstate"
where
  "start_backup cfg stop_at rf flt now s =
     (let s = log_event MsgStart info s;
          s = log_event (MsgSources (length (source_dirs cfg)) (length (source_files cfg)))
                info s;
          s = log_event (MsgTarget (target_dir cfg)) info s;
          backup_path = backup_path_of cfg now
      in
      case (case backup_dir_exn rf of
              Some e \<Rightarrow> Inl e
            | None \<Rightarrow> makedirs (fs s) backup_path) of
        Inl e \<Rightarrow> (Some e, log_event (MsgFailed e) error s)
      | Inr tree \<Rightarrow>
          let cr = collect_files cfg stop_at (s\<lparr>fs := tree\<rparr>);
              all_files = fst cr;
              s = snd cr;
              s = s\<lparr>stats := (stats s)\<lparr>total_files := length all_files\<rparr>\<rparr>
          in
          if total_files (stats s) = 0 then (None, log_event MsgNoFiles warning s)
          else
            let s = log_event (MsgFound (total_files (stats s))) info s;
                r = (if compress cfg
                     then create_compressed_backup cfg stop_at rf flt backup_path all_files s
                     else copy_files cfg stop_at rf flt backup_path all_files s)
            in
            (case fst r of
               Some e \<Rightarrow> (Some e, log_event (MsgFailed e) error (snd r))
             | None \<Rightarrow>
                 (case save_info_exn rf of
                    Some e \<Rightarrow> (Some e, log_event (MsgFailed e) error (snd r))
                  | None \<Rightarrow>
                      let s = snd r;
                          s = s\<lparr>last_backup := Some (backup_path, stats s)\<rparr>;
                          s = log_event MsgDone success s
                      in
                      (None,
                       log_event
                         (MsgStatistics (files_copied (stats s)) (files_skipped (stats s)))
                         info s))))"

section \<open>The remote engine: \<^verbatim>\<open>ParallelSSHBackupWorker\<close>\<close>

text \<open>The host, the port and the credentials are left out: they only open the
  session.\<close>

record rconfig = options +
  remote_target_dir :: path
  max_workers :: nat
  use_hash_check :: bool

text \<open>\<^verbatim>\<open>self._stats\<close>\<close>

record rstats = counters +
  total_size_mb :: rat
  skipped :: nat
  failed :: nat

subsection \<open>\<^verbatim>\<open>_is_hidden_rel\<close> and \<^verbatim>\<open>_collect_files\<close>\<close>

definition is_hidden_rel :: "path \<Rightarrow> bool" where
  "is_hidden_rel rel_path =
     list_ex (\<lambda>p. startswith_dot p \<and> p \<noteq> ''.'' \<and> p \<noteq> ''..'') rel_path"

text \<open>\<^verbatim>\<open>os.path.basename(src_dir.rstrip("\\/")) or "folder"\<close>\<close>

definition base_name_of :: "path \<Rightarrow> string" where
  "base_name_of src_dir = (if basename src_dir = [] then ''folder'' else basename src_dir)"

text \<open>
  The loops of \<^verbatim>\<open>_collect_files\<close> carry the items and the number of reads of
  \<^verbatim>\<open>self._stop_flag\<close> so far. Here every \<^verbatim>\<open>break\<close> leaves one loop only.
\<close>

fun rcollect_walk_files ::
  "rconfig \<Rightarrow> nat option \<Rightarrow> path \<Rightarrow> path \<Rightarrow> string list \<Rightarrow> (path \<times> path) list \<times> nat
    \<Rightarrow> (path \<times> path) list \<times> nat"
where
  "rcollect_walk_files cfg stop_at src_dir rt [] (items, t) = (items, t)"
| "rcollect_walk_files cfg stop_at src_dir rt (fn # files) (items, t) =
     (if is_set stop_at t then (items, Suc t)
      else
        let t = Suc t in
        if skip_hidden cfg \<and> startswith_dot fn
        then rcollect_walk_files cfg stop_at src_dir rt files (items, t)
        else
          let local_path = rt @ [fn];
              rel = drop (length src_dir) rt @ [fn]
          in
          if skip_hidden cfg \<and> is_hidden_rel rel
          then rcollect_walk_files cfg stop_at src_dir rt files (items, t)
          else
            let remote_rel = (if preserve_structure cfg then base_name_of src_dir # rel
                              else [basename local_path])
            in rcollect_walk_files cfg stop_at src_dir rt files
                 (items @ [(local_path, remote_rel)], t))"

fun rcollect_walk ::
  "rconfig \<Rightarrow> nat option \<Rightarrow> path \<Rightarrow> (path \<times> string list) list \<Rightarrow> (path \<times> path) list \<times> nat
    \<Rightarrow> (path \<times> path) list \<times> nat"
where
  "rcollect_walk cfg stop_at src_dir [] (items, t) = (items, t)"
| "rcollect_walk cfg stop_at src_dir (w # ws) (items, t) =
     (if is_set stop_at t then (items, Suc t)
      else rcollect_walk cfg stop_at src_dir ws
             (rcollect_walk_files cfg stop_at src_dir (fst w) (snd w) (items, Suc t)))"

fun rcollect_dirs ::
  "rconfig \<Rightarrow> nat option \<Rightarrow> node \<Rightarrow> path list \<Rightarrow> (path \<times> path) list \<times> nat
    \<Rightarrow> (path \<times> path) list \<times> nat"
where
  "rcollect_dirs cfg stop_at tree [] r = r"
| "rcollect_dirs cfg stop_at tree (src_dir # ds) r =
     rcollect_dirs cfg stop_at tree ds
       (rcollect_walk cfg stop_at src_dir (os_walk (skip_hidden cfg) tree src_dir) r)"

text \<open>\<^verbatim>\<open>for fp in self.source_files\<close>: a hidden name is left out.\<close>

fun rcollect_loose ::
  "rconfig \<Rightarrow> nat option \<Rightarrow> path list \<Rightarrow> (path \<times> path) list \<times> nat
    \<Rightarrow> (path \<times> path) list \<times> nat"
where
  "rcollect_loose cfg stop_at [] (items, t) = (items, t)"
| "rcollect_loose cfg stop_at (fp # fps) (items, t) =
     (if is_set stop_at t then (items, Suc t)
      else
        if skip_hidden cfg \<and> startswith_dot (basename fp)
        then rcollect_loose cfg stop_at fps (items, Suc t)
        else rcollect_loose cfg stop_at fps (items @ [(fp, [basename fp])], Suc t))"

text \<open>The sizes: a file whose \<^verbatim>\<open>getsize\<close> raises counts for nothing.\<close>

definition total_bytes_of :: "node \<Rightarrow> (path \<times> path) list \<Rightarrow> nat" where
  "total_bytes_of tree items =
     sum_list (map (\<lambda>it. case getsize tree (fst it) of Inl e \<Rightarrow> 0 | Inr n \<Rightarrow> n) items)"

definition init_rstats :: rstats where
  "init_rstats = \<lparr>total_files = 0, files_copied = 0, total_size_mb = 0, skipped = 0,
     failed = 0\<rparr>"

text \<open>The result: the items, the counters and the number of reads of the flag.\<close>

definition rcollect_files ::
  "rconfig \<Rightarrow> nat option \<Rightarrow> node \<Rightarrow> rstats \<Rightarrow> nat \<Rightarrow> (path \<times> path) list \<times> rstats \<times> nat"
where
  "rcollect_files cfg stop_at tree st t =
     (let r = rcollect_loose cfg stop_at (source_files cfg)
                (rcollect_dirs cfg stop_at tree (source_dirs cfg) ([], t));
          items = fst r
      in (items,
          st\<lparr>total_files := length items,
             total_size_mb := of_nat (total_bytes_of tree items) / (1024 * 1024)\<rparr>,
          snd r))"

subsection \<open>\<^verbatim>\<open>_calculate_md5\<close>\<close>

text \<open>
  \<^verbatim>\<open>while chunk := f.read(chunk_size): md5.update(chunk)\<close>: the hash object is the
  bytes it was fed (\<^verbatim>\<open>hashlib\<close>: updates in a row are one update with the
  concatenation), \<open>rest\<close> what the file still holds.
\<close>

function read_chunks :: "nat \<Rightarrow> string \<Rightarrow> string \<Rightarrow> string" where
  "read_chunks chunk_size rest fed =
     (let chunk = take chunk_size rest
      in if chunk = [] then fed
         else read_chunks chunk_size (drop chunk_size rest) (fed @ chunk))"
  by pat_completeness auto
termination
  by (relation "measure (\<lambda>(k, rest, fed). length rest)") auto

declare read_chunks.simps [simp del]

text \<open>\<open>md5_hex\<close> stands for \<^verbatim>\<open>hashlib.md5(data).hexdigest()\<close>, a parameter of the model.\<close>

definition calculate_md5 :: "(string \<Rightarrow> string) \<Rightarrow> string \<Rightarrow> string" where
  "calculate_md5 md5_hex content = md5_hex (read_chunks 8192 content [])"

subsection \<open>\<^verbatim>\<open>_should_skip_incremental\<close>\<close>

text \<open>
  The values that \<^verbatim>\<open>==\<close> compares in the hash check: a \<^verbatim>\<open>str\<close> or a \<^verbatim>\<open>bytes\<close>. In
  Python 3 a \<^verbatim>\<open>str\<close> and a \<^verbatim>\<open>bytes\<close> are never equal.
\<close>

datatype pyval = PyStr string | PyBytes string

fun py_eq :: "pyval \<Rightarrow> pyval \<Rightarrow> bool" where
  "py_eq (PyStr a) (PyStr b) = (a = b)"
| "py_eq (PyBytes a) (PyBytes b) = (a = b)"
| "py_eq _ _ = False"

text \<open>\<^verbatim>\<open>.strip()\<close>: the white space at both ends goes.\<close>

definition is_space :: "char \<Rightarrow> bool" where
  "is_space c = (c \<in> set [CHR '' '', CHR 0x09, CHR 0x0A, CHR 0x0B, CHR 0x0C, CHR 0x0D])"

definition strip :: "string \<Rightarrow> string" where
  "strip s = rev (dropWhile is_space (rev (dropWhile is_space s)))"

fun py_strip :: "pyval \<Rightarrow> pyval" where
  "py_strip (PyStr a) = PyStr (strip a)"
| "py_strip (PyBytes a) = PyBytes (strip a)"

text \<open>An attribute of the result of \<^verbatim>\<open>sftp.stat\<close>: not there, \<^verbatim>\<open>None\<close> (the server
  did not send it), or a number.\<close>

datatype attr = Absent | IsNone | Value int

record sftp_attrs =
  st_size :: attr
  st_mtime :: attr

text \<open>\<^verbatim>\<open>int(getattr(st, name, default))\<close>: \<^verbatim>\<open>int(None)\<close> is a \<^verbatim>\<open>TypeError\<close>.\<close>

definition int_getattr :: "attr \<Rightarrow> int \<Rightarrow> exn + int" where
  "int_getattr a d = (case a of Absent \<Rightarrow> Inr d | IsNone \<Rightarrow> Inl OtherError | Value v \<Rightarrow> Inr v)"

text \<open>\<^verbatim>\<open>int(x)\<close> of a float: towards zero.\<close>

definition py_int :: "rat \<Rightarrow> int" where
  "py_int x = (if x \<ge> 0 then \<lfloor>x\<rfloor> else \<lceil>x\<rceil>)"

text \<open>
  What the session and the local file system answer while a worker handles one item:
  \<open>Inl\<close> and \<open>Some\<close> are exceptions. \<open>sftp_read p\<close> is
  \<^verbatim>\<open>with sftp.open(p, 'r') as f: f.read()\<close>; the session is paramiko's, whose
  \<^verbatim>\<open>SFTPFile.read\<close> returns \<^verbatim>\<open>bytes\<close> whatever the mode.
\<close>

record io =
  sftp_stat :: "path \<Rightarrow> exn + sftp_attrs"
  sftp_read :: "path \<Rightarrow> exn + pyval"
  sftp_put :: "path \<Rightarrow> path \<Rightarrow> exn option"
  os_getsize :: "path \<Rightarrow> exn + int"
  os_getmtime :: "path \<Rightarrow> exn + rat"
  read_bytes :: "path \<Rightarrow> exn + string"
  progress_callback :: "exn option"

text \<open>\<^verbatim>\<open>remote_path + ".hash"\<close>\<close>

definition hash_path :: "path \<Rightarrow> path" where
  "hash_path p = (if p = [] then [''.hash''] else butlast p @ [last p @ ''.hash''])"

text \<open>The first \<^verbatim>\<open>try\<close>: \<open>Inr True\<close> is \<^verbatim>\<open>return True\<close>, \<open>Inr False\<close> the end of the
  block, \<open>Inl\<close> an exception (which the handler passes over).\<close>

definition metadata_check :: "io \<Rightarrow> path \<Rightarrow> path \<Rightarrow> exn + bool" where
  "metadata_check env local_path remote_path =
     (case sftp_stat env remote_path of
        Inl e \<Rightarrow> Inl e
      | Inr st \<Rightarrow>
          (case os_getsize env local_path of
             Inl e \<Rightarrow> Inl e
           | Inr local_size \<Rightarrow>
               (case os_getmtime env local_path of
                  Inl e \<Rightarrow> Inl e
                | Inr mt \<Rightarrow>
                    let local_mtime = py_int mt in
                    (case int_getattr (st_mtime st) 0 of
                       Inl e \<Rightarrow> Inl e
                     | Inr remote_mtime \<Rightarrow>
                         (case int_getattr (st_size st) (- 1) of
                            Inl e \<Rightarrow> Inl e
                          | Inr remote_size \<Rightarrow>
                              Inr (remote_size = local_size
                                   \<and> remote_mtime \<ge> local_mtime))))))"

text \<open>The second \<^verbatim>\<open>try\<close>: \<open>Inr b\<close> is \<^verbatim>\<open>return b\<close>.\<close>

definition hash_check :: "(string \<Rightarrow> string) \<Rightarrow> io \<Rightarrow> path \<Rightarrow> path \<Rightarrow> exn + bool" where
  "hash_check md5_hex env local_path remote_path =
     (case sftp_read env (hash_path remote_path) of
        Inl e \<Rightarrow> Inl e
      | Inr data \<Rightarrow>
          let remote_hash = py_strip data in
          (case read_bytes env local_path of
             Inl e \<Rightarrow> Inl e
           | Inr content \<Rightarrow>
               let local_hash = PyStr (calculate_md5 md5_hex content)
               in Inr (py_eq local_hash remote_hash)))"

definition should_skip_incremental ::
  "rconfig \<Rightarrow> (string \<Rightarrow> string) \<Rightarrow> io \<Rightarrow> path \<Rightarrow> path \<Rightarrow> bool"
where
  "should_skip_incremental cfg md5_hex env local_path remote_path =
     (if \<not> incremental cfg then False
      else if metadata_check env local_path remote_path = Inr True then True
      else if use_hash_check cfg
      then (case hash_check md5_hex env local_path remote_path of
              Inr b \<Rightarrow> b
            | Inl e \<Rightarrow> False)
      else False)"

subsection \<open>\<^verbatim>\<open>_upload_file\<close> and \<^verbatim>\<open>_upload_worker\<close>\<close>

text \<open>The calls of \<^verbatim>\<open>self._log\<close>, which passes over what the callback raises.\<close>

datatype rmessage =
    MsgUploadError path exn | MsgWorkerError nat exn
  | MsgNoItems | MsgFinished nat nat nat

text \<open>
  \<^verbatim>\<open>_upload_file\<close>: the result and the message it logs, if any. \<^verbatim>\<open>_mkdirs\<close> passes
  over every exception of the session and is left out. An exception of the \<^verbatim>\<open>put\<close>
  or of the digest of the local file reaches the handler; one of the write of the
  side file does not.
\<close>

definition upload_file ::
  "rconfig \<Rightarrow> io \<Rightarrow> path \<Rightarrow> path \<Rightarrow> path \<Rightarrow> bool \<times> (rmessage \<times> level) list"
where
  "upload_file cfg env local_path remote_path remote_rel =
     (case sftp_put env local_path remote_path of
        Some ex \<Rightarrow> (False, [(MsgUploadError remote_rel ex, error)])
      | None \<Rightarrow>
          if use_hash_check cfg
          then (case read_bytes env local_path of
                  Inl ex \<Rightarrow> (False, [(MsgUploadError remote_rel ex, error)])
                | Inr content \<Rightarrow> (True, []))
          else (True, []))"

text \<open>
  A worker thread is at the head of its loop, holds the item it took from the queue, or
  has left the loop.
\<close>

datatype worker = Polling | Holding "path \<times> path" | Exited

text \<open>
  The state that the threads share: the counters, the queue with its count of
  unfinished tasks (\<^verbatim>\<open>put\<close> adds one, \<^verbatim>\<open>task_done\<close> takes one), the stop flag, the
  calls of the two callbacks, and where each worker is.
\<close>

record pool =
  rstats :: rstats
  queue :: "(path \<times> path) list"
  unfinished_tasks :: nat
  workers :: "worker list"
  stop_flag :: bool
  rlog :: "(rmessage \<times> level) list"
  rprogress :: "path list"

text \<open>
  What happens next: \<^verbatim>\<open>stop()\<close> is called; the worker \<open>w\<close> tests the flag and takes an
  item (\<^verbatim>\<open>get_nowait\<close>); the worker \<open>w\<close> handles the item it holds, the session
  answering as \<open>env\<close> says. The counters change under the lock, so the handling of one
  item is one step.
\<close>

datatype event = Stop | Poll nat | Work nat io

definition task_done :: "pool \<Rightarrow> pool" where
  "task_done s = s\<lparr>unfinished_tasks := unfinished_tasks s - 1\<rparr>"

text \<open>The body of the loop of \<^verbatim>\<open>_upload_worker\<close> for the item \<open>(local_path, remote_rel)\<close>.\<close>

definition handle_item ::
  "rconfig \<Rightarrow> (string \<Rightarrow> string) \<Rightarrow> io \<Rightarrow> nat \<Rightarrow> path \<times> path \<Rightarrow> pool \<Rightarrow> pool"
where
  "handle_item cfg md5_hex env worker_id item s =
     (let local_path = fst item;
          remote_rel = snd item;
          remote_path = remote_target_dir cfg @ remote_rel
      in
      if should_skip_incremental cfg md5_hex env local_path remote_path
      then
        let s = s\<lparr>rstats := (rstats s)\<lparr>skipped := skipped (rstats s) + 1\<rparr>\<rparr>;
            s = s\<lparr>rprogress := rprogress s @ [remote_rel]\<rparr>
        in
        (case progress_callback env of
           Some ex \<Rightarrow>
             task_done (s\<lparr>rlog := rlog s @ [(MsgWorkerError worker_id ex, error)]\<rparr>)
         | None \<Rightarrow> task_done s)
      else
        let r = upload_file cfg env local_path remote_path remote_rel;
            s = s\<lparr>rlog := rlog s @ snd r\<rparr>
        in
        if fst r
        then task_done
               (s\<lparr>rstats := (rstats s)\<lparr>files_copied := files_copied (rstats s) + 1\<rparr>\<rparr>)
        else task_done (s\<lparr>rstats := (rstats s)\<lparr>failed := failed (rstats s) + 1\<rparr>\<rparr>))"

text \<open>One step. An event that names no worker in the right place changes nothing.\<close>

definition step :: "rconfig \<Rightarrow> (string \<Rightarrow> string) \<Rightarrow> pool \<Rightarrow> event \<Rightarrow> pool" where
  "step cfg md5_hex s ev =
     (case ev of
        Stop \<Rightarrow> s\<lparr>stop_flag := True\<rparr>
      | Poll w \<Rightarrow>
          if w < length (workers s) \<and> workers s ! w = Polling
          then
            if stop_flag s then s\<lparr>workers := (workers s)[w := Exited]\<rparr>
            else
              (case queue s of
                 [] \<Rightarrow> s\<lparr>workers := (workers s)[w := Exited]\<rparr>
               | item # rest \<Rightarrow>
                   s\<lparr>queue := rest, workers := (workers s)[w := Holding item]\<rparr>)
          else s
      | Work w env \<Rightarrow>
          if w < length (workers s)
          then (case workers s ! w of
                  Holding item \<Rightarrow>
                    (handle_item cfg md5_hex env w item s)
                      \<lparr>workers := (workers s)[w := Polling]\<rparr>
                | _ \<Rightarrow> s)
          else s)"

definition run :: "rconfig \<Rightarrow> (string \<Rightarrow> string) \<Rightarrow> event list \<Rightarrow> pool \<Rightarrow> pool" where
  "run cfg md5_hex evs s = foldl (step cfg md5_hex) s evs"

text \<open>
  The pool as \<^verbatim>\<open>start_backup\<close> starts it: every item of the manifest in the queue, in
  its order, and \<^verbatim>\<open>max_workers\<close> threads.
\<close>

definition start_pool :: "rconfig \<Rightarrow> (path \<times> path) list \<Rightarrow> rstats \<Rightarrow> bool \<Rightarrow> pool" where
  "start_pool cfg items st stopped =
     \<lparr>rstats = st, queue = items, unfinished_tasks = length items,
      workers = replicate (max_workers cfg) Polling, stop_flag = stopped,
      rlog = [], rprogress = []\<rparr>"

text \<open>\<^verbatim>\<open>self._queue.join()\<close> returns when no task is unfinished.\<close>

definition joined :: "pool \<Rightarrow> bool" where
  "joined s = (unfinished_tasks s = 0)"

text \<open>The number of items that workers hold.\<close>

definition busy :: "worker \<Rightarrow> bool" where
  "busy w = (w \<noteq> Polling \<and> w \<noteq> Exited)"

definition held :: "pool \<Rightarrow> nat" where
  "held s = length (filter busy (workers s))"

text \<open>
  What the counters and the queue keep at every step: every item of the manifest is
  counted once or is an unfinished task, and the unfinished tasks are the items in the
  queue and those that workers hold.
\<close>

definition tally_inv :: "pool \<Rightarrow> bool" where
  "tally_inv s =
     (files_copied (rstats s) + skipped (rstats s) + failed (rstats s) + unfinished_tasks s
        = total_files (rstats s)
      \<and> unfinished_tasks s = length (queue s) + held s)"

section \<open>Notions of the properties\<close>

text \<open>No call of the log callback at the level \<^verbatim>\<open>error\<close>: the local engine logs at
  that level in the handler of \<^verbatim>\<open>start_backup\<close> only, before it raises again.\<close>

definition quiet :: "bstate \<Rightarrow> bool" where
  "quiet s = (error \<notin> snd ` set (events s))"

text \<open>The number of items that the two counters of the local engine have counted.\<close>

definition counted :: "bstate \<Rightarrow> nat" where
  "counted s = files_copied (stats s) + files_skipped (stats s)"

text \<open>No segment of a path starts with a dot; and, for a manifest, this holds of the
  relative path of every item that comes from a source directory.\<close>

definition visible :: "path \<Rightarrow> bool" where
  "visible p = (\<not> list_ex startswith_dot p)"

definition dir_items_visible :: "file_info list \<Rightarrow> bool" where
  "dir_items_visible fis =
     list_all (\<lambda>fi. source_type fi = SrcFile \<or> visible (relative_path fi)) fis"

section \<open>Scenarios\<close>

text \<open>Scenario A of the specification: three files of 10, 20 and 30 bytes and the hidden
  file \<^verbatim>\<open>.secret\<close> of 10 bytes, in the source directory \<^verbatim>\<open>/src\<close>.\<close>

definition scenario_A_dir :: node where
  "scenario_A_dir =
     Dir [(''a.txt'', File 10 1), (''b.txt'', File 20 1), (''c.txt'', File 30 1),
          (''.secret'', File 10 1)]"

definition scenario_A_cfg :: config where
  "scenario_A_cfg = \<lparr>source_dirs = [[''src'']], source_files = [], incremental = True,
     skip_hidden = True, compress = False, preserve_structure = True,
     target_dir = [''dst'']\<rparr>"

text \<open>A hidden file given as a loose source file, \<^verbatim>\<open>/home/u/.bashrc\<close>, to both engines.\<close>

definition hidden_loose_tree :: node where
  "hidden_loose_tree = Dir [(''home'', Dir [(''u'', Dir [(''.bashrc'', File 5 1)])])]"

definition hidden_loose_cfg :: config where
  "hidden_loose_cfg = \<lparr>source_dirs = [], source_files = [[''home'', ''u'', ''.bashrc'']],
     incremental = True, skip_hidden = True, compress = False, preserve_structure = True,
     target_dir = [''dst'']\<rparr>"

definition hidden_loose_rcfg :: rconfig where
  "hidden_loose_rcfg = \<lparr>source_dirs = [], source_files = [[''home'', ''u'', ''.bashrc'']],
     incremental = True, skip_hidden = True, compress = False, preserve_structure = True,
     remote_target_dir = [''backup''], max_workers = 4, use_hash_check = True\<rparr>"

text \<open>A source tree of two files, \<^verbatim>\<open>/src/a.txt\<close> and \<^verbatim>\<open>/src/sub/b.txt\<close>, an empty
  target \<^verbatim>\<open>/dst\<close>, and the state after a first incremental run with a new manager.\<close>

definition two_files_tree :: node where
  "two_files_tree =
     Dir [(''src'', Dir [(''a.txt'', File 10 1), (''sub'', Dir [(''b.txt'', File 20 2)])]),
          (''dst'', Dir [])]"

definition two_files_cfg :: config where
  "two_files_cfg = \<lparr>source_dirs = [[''src'']], source_files = [], incremental = True,
     skip_hidden = True, compress = False, preserve_structure = True,
     target_dir = [''dst'']\<rparr>"

definition first_run :: bstate where
  "first_run = snd (start_backup two_files_cfg None no_run_faults (\<lambda>i. no_faults)
     ''20260101_000000'' (init_state two_files_tree))"

text \<open>
  A local file \<^verbatim>\<open>/src/a.txt\<close> of 5 bytes, \<^verbatim>\<open>hello\<close>, touched at the time 200, and its
  remote copy of the same size and the time 100, with the side file \<^verbatim>\<open>a.txt.hash\<close>
  that holds the digest of \<^verbatim>\<open>hello\<close>: the session answers as paramiko does, with the
  bytes of the side file. \<open>digest_of_hello\<close> is a digest function for the closed
  examples: the MD5 of \<^verbatim>\<open>hello\<close>.
\<close>

definition digest_of_hello :: "string \<Rightarrow> string" where
  "digest_of_hello content = ''5d41402abc4b2a76b9719d911017c592''"

definition touched_env :: "(string \<Rightarrow> string) \<Rightarrow> io" where
  "touched_env md5_hex =
     \<lparr>sftp_stat = (\<lambda>p. Inr \<lparr>st_size = Value 5, st_mtime = Value 100\<rparr>),
      sftp_read = (\<lambda>p. Inr (PyBytes (md5_hex ''hello''))),
      sftp_put = (\<lambda>l r. None),
      os_getsize = (\<lambda>p. Inr 5),
      os_getmtime = (\<lambda>p. Inr 200),
      read_bytes = (\<lambda>p. Inr ''hello''),
      progress_callback = None\<rparr>"

text \<open>A session whose every call raises.\<close>

definition no_session_env :: io where
  "no_session_env =
     \<lparr>sftp_stat = (\<lambda>p. Inl OSError),
      sftp_read = (\<lambda>p. Inl OSError),
      sftp_put = (\<lambda>l r. Some OSError),
      os_getsize = (\<lambda>p. Inr 5),
      os_getmtime = (\<lambda>p. Inr 200),
      read_bytes = (\<lambda>p. Inr ''hello''),
      progress_callback = None\<rparr>"

text \<open>A remote run of two items with two workers.\<close>

definition upload_rcfg :: rconfig where
  "upload_rcfg = \<lparr>source_dirs = [[''src'']], source_files = [], incremental = True,
     skip_hidden = True, compress = False, preserve_structure = True,
     remote_target_dir = [''backup''], max_workers = 2, use_hash_check = True\<rparr>"

definition two_items :: "(path \<times> path) list" where
  "two_items = [([''src'', ''a.txt''], [''src'', ''a.txt'']),
                ([''src'', ''sub'', ''b.txt''], [''src'', ''sub'', ''b.txt''])]"

definition two_items_pool :: pool where
  "two_items_pool = start_pool upload_rcfg two_items (init_rstats\<lparr>total_files := 2\<rparr>) False"

text \<open>The first session again, but \<^verbatim>\<open>sftp.stat\<close> raises.\<close>

definition stat_error_env :: "(string \<Rightarrow> string) \<Rightarrow> io" where
  "stat_error_env md5_hex = (touched_env md5_hex)\<lparr>sftp_stat := (\<lambda>p. Inl OSError)\<rparr>"

section \<open>Properties\<close>

subsection \<open>The file system\<close>

lemma lookup_append:
  "lookup n (p @ q) = (case lookup n p of None \<Rightarrow> None | Some c \<Rightarrow> lookup c q)"
  by (induction p arbitrary: n) (auto split: node.splits option.splits)

lemma startswith_dot_secret: "startswith_dot ''.secret''"
  by (simp add: startswith_dot_def)

subsection \<open>Collection\<close>

text \<open>
  C9, as the specification states it: the manifest of scenario A has exactly 2 items and
  50 bytes. It does not: the three files that are not hidden are all collected.
\<close>

theorem scenario_A_counterexample:
  "\<not> (length (fst (collect_files scenario_A_cfg None
                      (init_state (Dir [(''src'', scenario_A_dir)])))) = 2
      \<and> total_size (stats (snd (collect_files scenario_A_cfg None
                      (init_state (Dir [(''src'', scenario_A_dir)]))))) = 50)"
  by code_simp

text \<open>
  C9, amended: a source directory that holds three files of 10, 20 and 30 bytes whose
  names do not start with a dot, and the hidden file \<^verbatim>\<open>.secret\<close> of 10 bytes, gives
  with \<^verbatim>\<open>skip_hidden\<close> a manifest of exactly 3 items, the three files, with 60 bytes in
  all.
\<close>

theorem scenario_A_manifest:
  assumes "\<not> startswith_dot n1" "\<not> startswith_dot n2" "\<not> startswith_dot n3"
    and "distinct [n1, n2, n3]"
    and "lookup tree src =
           Some (Dir [(n1, File 10 t1), (n2, File 20 t2), (n3, File 30 t3),
                      (''.secret'', File 10 t4)])"
    and "source_dirs cfg = [src]" "source_files cfg = []" "skip_hidden cfg"
  shows "map relative_path (fst (collect_files cfg None (init_state tree))) = [[n1], [n2], [n3]]
     \<and> map file_size (fst (collect_files cfg None (init_state tree))) = [10, 20, 30]
     \<and> length (fst (collect_files cfg None (init_state tree))) = 3
     \<and> total_size (stats (snd (collect_files cfg None (init_state tree)))) = 60"
proof -
  have ne: "n1 \<noteq> ''.secret''" "n2 \<noteq> ''.secret''" "n3 \<noteq> ''.secret''"
    using assms(1-3) startswith_dot_secret by auto
  show ?thesis
    using assms startswith_dot_secret ne
    by (auto simp: collect_files_def init_state_def os_walk_def exists_path_def is_set_def
        poll_def getsize_def init_stats_def lookup_append Let_def)
qed

theorem scenario_A_manifest_witness:
  "map relative_path (fst (collect_files scenario_A_cfg None
       (init_state (Dir [(''src'', scenario_A_dir)]))))
     = [[''a.txt''], [''b.txt''], [''c.txt'']]
   \<and> total_size (stats (snd (collect_files scenario_A_cfg None
       (init_state (Dir [(''src'', scenario_A_dir)]))))) = 60"
  using scenario_A_manifest [of "''a.txt''" "''b.txt''" "''c.txt''"
      "Dir [(''src'', scenario_A_dir)]" "[''src'']" 1 1 1 1 scenario_A_cfg]
  by (simp add: startswith_dot_def scenario_A_cfg_def scenario_A_dir_def)

text \<open>
  C3 at a hidden loose source file: with \<^verbatim>\<open>skip_hidden\<close> set, the local
  \<^verbatim>\<open>_collect_files\<close> puts \<^verbatim>\<open>/home/u/.bashrc\<close> in the manifest, under the relative path
  \<^verbatim>\<open>.bashrc\<close>; the remote \<^verbatim>\<open>_collect_files\<close> leaves it out.
\<close>

theorem loose_hidden_file_collected:
  "skip_hidden hidden_loose_cfg
   \<and> map relative_path (fst (collect_files hidden_loose_cfg None
                               (init_state hidden_loose_tree))) = [[''.bashrc'']]
   \<and> fst (rcollect_files hidden_loose_rcfg None hidden_loose_tree init_rstats 0) = []"
  by code_simp

subsection \<open>The local skip decision\<close>

text \<open>
  C6: \<^verbatim>\<open>_should_skip_file\<close> returns true if and only if the destination exists and
  its modification time is greater than or equal to that of the source (and both times
  can be read).
\<close>

theorem should_skip_file_iff:
  "should_skip_file tree s t \<longleftrightarrow>
     exists_path tree t \<and>
     (\<exists>sm tm. getmtime tree s = Inr sm \<and> getmtime tree t = Inr tm \<and> tm \<ge> sm)"
  by (auto simp: should_skip_file_def split: sum.splits)

subsection \<open>Two local runs\<close>

text \<open>
  C2 at two runs, one second apart, over the same two source files, each with a new
  manager: the first run copies both files, and so does the second, into its own
  directory \<^verbatim>\<open>backup_<time>\<close>; it skips nothing.
\<close>

theorem second_run_copies_again:
  "lookup (fs first_run) [''src''] = lookup two_files_tree [''src'']
   \<and> stats first_run
       = \<lparr>total_files = 2, files_copied = 2, files_skipped = 0, total_size = 30\<rparr>
   \<and> fst (start_backup two_files_cfg None no_run_faults (\<lambda>i. no_faults)
             ''20260101_000001'' (init_state (fs first_run))) = None
   \<and> stats (snd (start_backup two_files_cfg None no_run_faults (\<lambda>i. no_faults)
             ''20260101_000001'' (init_state (fs first_run))))
       = \<lparr>total_files = 2, files_copied = 2, files_skipped = 0, total_size = 30\<rparr>"
  by code_simp

text \<open>A second run within the same second shares the directory of the first, finds both
  targets with the times of the sources, and skips both.\<close>

lemma second_run_same_second_skips:
  "stats (snd (start_backup two_files_cfg None no_run_faults (\<lambda>i. no_faults)
                 ''20260101_000000'' (init_state (fs first_run))))
     = \<lparr>total_files = 2, files_copied = 0, files_skipped = 2, total_size = 30\<rparr>"
  by code_simp

subsection \<open>Cancellation of a local run\<close>

lemma quiet_log_event: "l \<noteq> error \<Longrightarrow> quiet (log_event m l s) = quiet s"
  by (auto simp: quiet_def log_event_def)

lemma quiet_upd [simp]:
  "quiet (s\<lparr>stats := a\<rparr>) = quiet s" "quiet (s\<lparr>fs := b\<rparr>) = quiet s"
  "quiet (s\<lparr>progress := c\<rparr>) = quiet s" "quiet (s\<lparr>log_file := d\<rparr>) = quiet s"
  "quiet (s\<lparr>archive := e\<rparr>) = quiet s" "quiet (s\<lparr>last_backup := f\<rparr>) = quiet s"
  "quiet (s\<lparr>polls := g\<rparr>) = quiet s"
  by (simp_all add: quiet_def)

lemma quiet_poll [simp]: "quiet (poll s) = quiet s"
  by (simp add: poll_def)

lemma quiet_inc [simp]: "quiet (inc_skipped s) = quiet s" "quiet (inc_copied s) = quiet s"
  by (simp_all add: inc_skipped_def inc_copied_def)

lemma quiet_collect_walk_files:
  "quiet (snd r) \<Longrightarrow> quiet (snd (snd (collect_walk_files cfg stop_at d rt fns r)))"
proof (induction fns arbitrary: r)
  case Nil
  then show ?case by (cases r) simp
next
  case (Cons f fns)
  obtain a s where r: "r = (a, s)" by (cases r)
  show ?case using Cons.prems
    by (auto simp: r Let_def quiet_log_event split: sum.splits intro!: Cons.IH)
qed

lemma quiet_collect_walk:
  "quiet (snd r) \<Longrightarrow> quiet (snd (snd (collect_walk cfg stop_at d ws r)))"
proof (induction ws arbitrary: r)
  case Nil
  then show ?case by (cases r) simp
next
  case (Cons w ws)
  obtain a s where r: "r = (a, s)" by (cases r)
  obtain b r' where c: "collect_walk_files cfg stop_at d (fst w) (snd w) (a, s) = (b, r')"
    by (cases "collect_walk_files cfg stop_at d (fst w) (snd w) (a, s)")
  have "quiet (snd r')"
    using quiet_collect_walk_files [of "(a, s)" cfg stop_at d "fst w" "snd w"] Cons.prems
    by (simp add: r c)
  then show ?case
    by (cases b) (simp_all add: r c Cons.IH)
qed

lemma quiet_collect_dirs:
  "quiet (snd r) \<Longrightarrow> quiet (snd (snd (collect_dirs cfg stop_at ds r)))"
proof (induction ds arbitrary: r)
  case Nil
  then show ?case by (cases r) simp
next
  case (Cons d ds)
  obtain a s where r: "r = (a, s)" by (cases r)
  obtain b r' where c: "collect_walk cfg stop_at d
      (os_walk (skip_hidden cfg) (fs (poll s)) d) (a, poll s) = (b, r')"
    by (cases "collect_walk cfg stop_at d (os_walk (skip_hidden cfg) (fs (poll s)) d) (a, poll s)")
  have q: "quiet (snd r')"
    using quiet_collect_walk [of "(a, poll s)" cfg stop_at d] Cons.prems c
    by (metis quiet_poll r snd_conv)
  show ?case using Cons.prems q
    by (cases b) (auto simp: r c Let_def quiet_log_event intro!: Cons.IH)
qed

lemma quiet_collect_loose:
  "quiet (snd r) \<Longrightarrow> quiet (snd (collect_loose stop_at fps r))"
proof (induction fps arbitrary: r)
  case Nil
  then show ?case by (cases r) simp
next
  case (Cons f fps)
  obtain a s where r: "r = (a, s)" by (cases r)
  show ?case using Cons.prems
    by (auto simp: r Let_def quiet_log_event split: sum.splits intro!: Cons.IH)
qed

lemma quiet_collect_files:
  "quiet s \<Longrightarrow> quiet (snd (collect_files cfg stop_at s))"
proof -
  assume q: "quiet s"
  obtain b r where c: "collect_dirs cfg stop_at (source_dirs cfg) ([], s) = (b, r)"
    by (cases "collect_dirs cfg stop_at (source_dirs cfg) ([], s)")
  have "quiet (snd r)"
    using quiet_collect_dirs [of "([], s)" cfg stop_at "source_dirs cfg"] q c by simp
  then show ?thesis
    by (cases b) (simp_all add: collect_files_def c quiet_collect_loose)
qed


lemma quiet_copy_handler [simp]: "quiet (copy_handler fi e s) = quiet s"
  by (simp add: copy_handler_def quiet_log_event)

lemma quiet_copy_item:
  "quiet (snd cs) \<Longrightarrow> quiet (snd (copy_item cfg bp n i fi flt cs))"
  by (simp add: copy_item_def Let_def quiet_log_event split: sum.splits option.splits)

lemma polls_copy_handler [simp]: "polls (copy_handler fi e s) = polls s"
  by (simp add: copy_handler_def inc_skipped_def log_event_def)

lemma polls_copy_item:
  "polls (snd (copy_item cfg bp n i fi flt cs)) = polls (snd cs)"
  by (simp add: copy_item_def Let_def inc_skipped_def inc_copied_def log_event_def
      split: sum.splits option.splits)

lemma quiet_copy_loop:
  "quiet (snd cs) \<Longrightarrow> quiet (snd (copy_loop cfg stop_at flt bp n i files cs))"
proof (induction files arbitrary: i cs)
  case Nil
  then show ?case by simp
next
  case (Cons fi files)
  show ?case using Cons.prems
    by (auto simp: quiet_log_event intro!: Cons.IH quiet_copy_item)
qed

lemma copy_loop_stop:
  "k < length files \<Longrightarrow>
   copy_loop cfg (Some (polls (snd cs) + k)) flt bp n i files cs
     = (fst (copy_loop cfg None flt bp n i (take k files) cs),
        log_event MsgStopped warning
          (poll (snd (copy_loop cfg None flt bp n i (take k files) cs))))"
proof (induction files arbitrary: k i cs)
  case Nil
  then show ?case by simp
next
  case (Cons fi files)
  show ?case
  proof (cases k)
    case 0
    then show ?thesis by (simp add: is_set_def)
  next
    case (Suc k')
    let ?cs = "copy_item cfg bp n i fi (flt i) (fst cs, poll (snd cs))"
    have p: "polls (snd ?cs) + k' = polls (snd cs) + k"
      by (simp add: polls_copy_item poll_def Suc)
    have "k' < length files" using Cons.prems Suc by simp
    from Cons.IH [OF this, of ?cs "Suc i"] show ?thesis
      by (simp add: p Suc is_set_def)
  qed
qed

lemma copy_loop_no_stop:
  "length files \<le> k \<Longrightarrow>
   copy_loop cfg (Some (polls (snd cs) + k)) flt bp n i files cs
     = copy_loop cfg None flt bp n i files cs"
proof (induction files arbitrary: k i cs)
  case Nil
  then show ?case by simp
next
  case (Cons fi files)
  then obtain k' where k: "k = Suc k'" by (cases k) auto
  let ?cs = "copy_item cfg bp n i fi (flt i) (fst cs, poll (snd cs))"
  have p: "polls (snd ?cs) + k' = polls (snd cs) + k"
    by (simp add: polls_copy_item poll_def k)
  have "length files \<le> k'" using Cons.prems k by simp
  from Cons.IH [OF this, of ?cs "Suc i"] show ?case
    by (simp add: p k is_set_def)
qed

lemma quiet_copy_files:
  "quiet s \<Longrightarrow> quiet (snd (copy_files cfg stop_at rf flt bp files s))"
  by (auto simp: copy_files_def Let_def split: option.splits intro!: quiet_copy_loop)

lemma quiet_archive_item: "quiet s \<Longrightarrow> quiet (archive_item cfg n i fi flt s)"
  by (simp add: archive_item_def archive_handler_def Let_def quiet_log_event
      split: sum.splits option.splits)

lemma quiet_archive_loop:
  "quiet s \<Longrightarrow> quiet (archive_loop cfg stop_at flt n i files s)"
  by (induction files arbitrary: i s) (simp_all add: quiet_archive_item)

lemma quiet_create_compressed_backup:
  "quiet s \<Longrightarrow> quiet (snd (create_compressed_backup cfg stop_at rf flt bp files s))"
  by (auto simp: create_compressed_backup_def Let_def quiet_log_event split: option.splits
      intro!: quiet_archive_loop)

lemma copy_files_normal:
  "metadata_exn rf = None \<Longrightarrow> log_open_exn rf = None \<Longrightarrow> footer_exn rf = None \<Longrightarrow>
   fst (copy_files cfg stop_at rf flt bp files s) = None"
  by (simp add: copy_files_def Let_def)

lemma copy_files_footer:
  "metadata_exn rf = None \<Longrightarrow> log_open_exn rf = None \<Longrightarrow> footer_exn rf = None \<Longrightarrow>
   \<exists>ls. log_file (snd (copy_files cfg stop_at rf flt bp files s))
     = ls @ [LineRule, LineFinished,
             LineCopiedTotal (files_copied (stats (snd (copy_files cfg stop_at rf flt bp files s)))),
             LineSkippedTotal (files_skipped (stats (snd (copy_files cfg stop_at rf flt bp files s))))]"
  by (simp add: copy_files_def Let_def)

lemma create_compressed_backup_normal:
  "metadata_exn rf = None \<Longrightarrow> log_open_exn rf = None \<Longrightarrow> footer_exn rf = None \<Longrightarrow>
   fst (create_compressed_backup cfg stop_at rf flt bp files s) = None"
  by (simp add: create_compressed_backup_def Let_def)


lemma stats_log_event [simp]: "stats (log_event m l s) = stats s"
  by (simp add: log_event_def)

lemma log_file_log_event [simp]: "log_file (log_event m l s) = log_file s"
  by (simp add: log_event_def)

lemma last_backup_log_event [simp]: "last_backup (log_event m l s) = last_backup s"
  by (simp add: log_event_def)

lemma fs_log_event [simp]: "fs (log_event m l s) = fs s"
  by (simp add: log_event_def)

lemma start_backup_normal:
  assumes "backup_dir_exn rf = None" "metadata_exn rf = None" "log_open_exn rf = None"
    "footer_exn rf = None" "save_info_exn rf = None"
    and "makedirs (fs s) (backup_path_of cfg now) = Inr tree"
  shows "fst (start_backup cfg stop_at rf flt now s) = None"
  using assms
  by (simp add: start_backup_def Let_def copy_files_normal create_compressed_backup_normal)

lemma quiet_start_backup:
  assumes "backup_dir_exn rf = None" "metadata_exn rf = None" "log_open_exn rf = None"
    "footer_exn rf = None" "save_info_exn rf = None"
    and "makedirs (fs s) (backup_path_of cfg now) = Inr tree"
    and "quiet s"
  shows "quiet (snd (start_backup cfg stop_at rf flt now s))"
  using assms
  by (simp add: start_backup_def Let_def copy_files_normal create_compressed_backup_normal
      quiet_log_event quiet_copy_files quiet_create_compressed_backup quiet_collect_files)

lemma start_backup_last_backup:
  assumes "backup_dir_exn rf = None" "metadata_exn rf = None" "log_open_exn rf = None"
    "footer_exn rf = None" "save_info_exn rf = None"
    and "makedirs (fs s) (backup_path_of cfg now) = Inr tree"
    and "total_files (stats (snd (start_backup cfg stop_at rf flt now s))) \<noteq> 0"
  shows "last_backup (snd (start_backup cfg stop_at rf flt now s))
     = Some (backup_path_of cfg now, stats (snd (start_backup cfg stop_at rf flt now s)))"
  using assms
  by (simp add: start_backup_def Let_def copy_files_normal create_compressed_backup_normal
      split: if_splits)

lemma start_backup_footer:
  assumes "backup_dir_exn rf = None" "metadata_exn rf = None" "log_open_exn rf = None"
    "footer_exn rf = None" "save_info_exn rf = None"
    and "makedirs (fs s) (backup_path_of cfg now) = Inr tree"
    and "total_files (stats (snd (start_backup cfg stop_at rf flt now s))) \<noteq> 0"
    and "\<not> compress cfg"
  shows "\<exists>ls. log_file (snd (start_backup cfg stop_at rf flt now s))
     = ls @ [LineRule, LineFinished,
             LineCopiedTotal (files_copied (stats (snd (start_backup cfg stop_at rf flt now s)))),
             LineSkippedTotal (files_skipped (stats (snd (start_backup cfg stop_at rf flt now s))))]"
  using assms
  by (simp add: start_backup_def Let_def copy_files_normal copy_files_footer
      split: if_splits)


text \<open>
  C8: a local run with the stop flag. The loop of \<^verbatim>\<open>_copy_files\<close> polls the flag before
  each item: when the poll before the item of index \<open>k\<close> is the first to find it set, the
  items before it are handled as in a run that is not stopped, neither that item nor a
  later one is handled, and the loop ends with a warning. Whenever the flag is set
  (\<open>stop_at\<close> is any poll, or none), a run whose set-up and closing steps do not fail
  returns normally, logs nothing at the level \<^verbatim>\<open>error\<close>, saves \<^verbatim>\<open>last_backup.json\<close> with
  the counters as they are at the end, and (when it copies a tree) ends
  \<^verbatim>\<open>backup_log.txt\<close> with the foot that holds these counters.
\<close>

theorem stopped_run_returns_normally:
  assumes "backup_dir_exn rf = None" "metadata_exn rf = None" "log_open_exn rf = None"
    "footer_exn rf = None" "save_info_exn rf = None"
    and "makedirs (fs s) (backup_path_of cfg now) = Inr tree"
    and "quiet s"
    and "k < length files"
    and "start_backup cfg stop_at rf flt now s = (res, s')"
  shows "copy_loop cfg (Some (polls (snd cs) + k)) flt bp n i files cs
           = (fst (copy_loop cfg None flt bp n i (take k files) cs),
              log_event MsgStopped warning
                (poll (snd (copy_loop cfg None flt bp n i (take k files) cs))))
     \<and> res = None
     \<and> quiet s'
     \<and> (total_files (stats s') \<noteq> 0 \<longrightarrow>
          last_backup s' = Some (backup_path_of cfg now, stats s'))
     \<and> (total_files (stats s') \<noteq> 0 \<and> \<not> compress cfg \<longrightarrow>
          (\<exists>ls. log_file s' = ls @ [LineRule, LineFinished,
                                     LineCopiedTotal (files_copied (stats s')),
                                     LineSkippedTotal (files_skipped (stats s'))]))"
proof -
  have r: "res = fst (start_backup cfg stop_at rf flt now s)"
    "s' = snd (start_backup cfg stop_at rf flt now s)"
    using assms(9) by simp_all
  show ?thesis
    unfolding r
    using copy_loop_stop [OF assms(8)] start_backup_normal [OF assms(1-6)]
      quiet_start_backup [OF assms(1-7)] start_backup_last_backup [OF assms(1-6)]
      start_backup_footer [OF assms(1-6)]
    by blast
qed

text \<open>The witness of C8: the run over the two files, stopped at the poll before the
  second item.\<close>

theorem stopped_run_witness:
  "fst (start_backup two_files_cfg (Some 4) no_run_faults (\<lambda>i. no_faults)
          ''20260101_000000'' (init_state two_files_tree)) = None
   \<and> quiet (snd (start_backup two_files_cfg (Some 4) no_run_faults (\<lambda>i. no_faults)
                   ''20260101_000000'' (init_state two_files_tree)))
   \<and> stats (snd (start_backup two_files_cfg (Some 4) no_run_faults (\<lambda>i. no_faults)
                   ''20260101_000000'' (init_state two_files_tree)))
       = \<lparr>total_files = 2, files_copied = 1, files_skipped = 0, total_size = 30\<rparr>"
proof -
  let ?S = "\<lparr>stats = \<lparr>total_files = 2, files_copied = 1, files_skipped = 0, total_size = 30\<rparr>,
       fs = Dir [(''src'', Dir [(''a.txt'', File 10 1), (''sub'', Dir [(''b.txt'', File 20 2)])]),
                 (''dst'', Dir [(''backup_20260101_000000'',
                                 Dir [(''src'', Dir [(''a.txt'', File 10 1)])])])],
       events = [(MsgStart, info), (MsgSources 1 0, info), (MsgTarget [''dst''], info),
                 (MsgFound 2, info), (MsgStopped, warning), (MsgDone, success),
                 (MsgStatistics 1 0, info)],
       progress = [(1, 2, [''src'', ''a.txt''])],
       log_file = [LineStarted, LineTotal 2, LineRule,
                   LineCopied [''src'', ''a.txt'']
                     [''dst'', ''backup_20260101_000000'', ''src'', ''a.txt''],
                   LineRule, LineFinished, LineCopiedTotal 1, LineSkippedTotal 0],
       archive = [],
       last_backup = Some ([''dst'', ''backup_20260101_000000''],
                           \<lparr>total_files = 2, files_copied = 1, files_skipped = 0,
                              total_size = 30\<rparr>),
       polls = 5\<rparr>"
  have run: "start_backup two_files_cfg (Some 4) no_run_faults (\<lambda>i. no_faults)
      ''20260101_000000'' (init_state two_files_tree) = (None, ?S)"
    by code_simp
  have mk: "makedirs (fs (init_state two_files_tree))
              (backup_path_of two_files_cfg ''20260101_000000'')
     = Inr (Dir [(''src'', Dir [(''a.txt'', File 10 1), (''sub'', Dir [(''b.txt'', File 20 2)])]),
                 (''dst'', Dir [(''backup_20260101_000000'', Dir [])])])"
    by code_simp
  have q: "quiet (init_state two_files_tree)"
    by (simp add: quiet_def init_state_def)
  have k: "(1::nat) < length [x, x]" for x :: file_info
    by simp
  have rf: "backup_dir_exn no_run_faults = None" "metadata_exn no_run_faults = None"
    "log_open_exn no_run_faults = None" "footer_exn no_run_faults = None"
    "save_info_exn no_run_faults = None"
    by (simp_all add: no_run_faults_def)
  from stopped_run_returns_normally [OF rf mk q k run]
  have "quiet ?S"
    by blast
  then show ?thesis
    unfolding run by simp
qed

subsection \<open>The tally of a local run\<close>

lemma counted_simps [simp]:
  "counted (log_event m l s) = counted s" "counted (poll s) = counted s"
  "counted (s\<lparr>stats := (stats s)\<lparr>total_size := a\<rparr>\<rparr>) = counted s"
  "counted (s\<lparr>stats := (stats s)\<lparr>total_files := b\<rparr>\<rparr>) = counted s"
  "counted (s\<lparr>fs := c\<rparr>) = counted s" "counted (s\<lparr>log_file := d\<rparr>) = counted s"
  "counted (s\<lparr>progress := e\<rparr>) = counted s" "counted (s\<lparr>archive := f\<rparr>) = counted s"
  "counted (s\<lparr>last_backup := g\<rparr>) = counted s"
  "counted (inc_skipped s) = Suc (counted s)" "counted (inc_copied s) = Suc (counted s)"
  by (simp_all add: counted_def log_event_def poll_def inc_skipped_def inc_copied_def)

lemma counted_collect_walk_files:
  "counted (snd (snd (collect_walk_files cfg stop_at d rt fns r))) = counted (snd r)"
proof (induction fns arbitrary: r)
  case Nil
  then show ?case by (cases r) simp
next
  case (Cons f fns)
  obtain a s where r: "r = (a, s)" by (cases r)
  show ?case
    by (simp add: r Let_def Cons.IH split: sum.splits)
qed

lemma counted_collect_walk:
  "counted (snd (snd (collect_walk cfg stop_at d ws r))) = counted (snd r)"
proof (induction ws arbitrary: r)
  case Nil
  then show ?case by (cases r) simp
next
  case (Cons w ws)
  obtain a s where r: "r = (a, s)" by (cases r)
  obtain b r' where c: "collect_walk_files cfg stop_at d (fst w) (snd w) (a, s) = (b, r')"
    by (cases "collect_walk_files cfg stop_at d (fst w) (snd w) (a, s)")
  have "counted (snd r') = counted s"
    using counted_collect_walk_files [of cfg stop_at d "fst w" "snd w" "(a, s)"]
    by (simp add: c)
  then show ?case
    by (cases b) (simp_all add: r c Cons.IH)
qed

lemma counted_collect_dirs:
  "counted (snd (snd (collect_dirs cfg stop_at ds r))) = counted (snd r)"
proof (induction ds arbitrary: r)
  case Nil
  then show ?case by (cases r) simp
next
  case (Cons d ds)
  obtain a s where r: "r = (a, s)" by (cases r)
  obtain b r' where c: "collect_walk cfg stop_at d
      (os_walk (skip_hidden cfg) (fs (poll s)) d) (a, poll s) = (b, r')"
    by (cases "collect_walk cfg stop_at d (os_walk (skip_hidden cfg) (fs (poll s)) d) (a, poll s)")
  have q: "counted (snd r') = counted s"
    using counted_collect_walk [of cfg stop_at d _ "(a, poll s)"] c
    by (metis counted_simps(2) snd_conv)
  show ?case using q
    by (cases b) (simp_all add: r c Let_def Cons.IH)
qed

lemma counted_collect_loose:
  "counted (snd (collect_loose stop_at fps r)) = counted (snd r)"
proof (induction fps arbitrary: r)
  case Nil
  then show ?case by (cases r) simp
next
  case (Cons f fps)
  obtain a s where r: "r = (a, s)" by (cases r)
  show ?case
    by (simp add: r Let_def Cons.IH split: sum.splits)
qed

lemma counted_collect_files:
  "counted (snd (collect_files cfg stop_at s)) = counted s"
proof -
  obtain b r where c: "collect_dirs cfg stop_at (source_dirs cfg) ([], s) = (b, r)"
    by (cases "collect_dirs cfg stop_at (source_dirs cfg) ([], s)")
  have "counted (snd r) = counted s"
    using counted_collect_dirs [of cfg stop_at "source_dirs cfg" "([], s)"] c by simp
  then show ?thesis
    by (cases b) (simp_all add: collect_files_def c counted_collect_loose)
qed

lemma counted_copy_handler [simp]: "counted (copy_handler fi e s) = Suc (counted s)"
  by (simp add: copy_handler_def)

lemma counted_copy_item:
  "log_write_exn flt = None \<Longrightarrow> progress_exn flt = None \<Longrightarrow>
   counted (snd (copy_item cfg bp n i fi flt cs)) = Suc (counted (snd cs))"
  by (simp add: copy_item_def Let_def split: sum.splits option.splits)

lemma counted_copy_item_bounds:
  "Suc (counted (snd cs)) \<le> counted (snd (copy_item cfg bp n i fi flt cs))
   \<and> counted (snd (copy_item cfg bp n i fi flt cs)) \<le> Suc (Suc (counted (snd cs)))"
  by (simp add: copy_item_def Let_def split: sum.splits option.splits)

lemma counted_copy_loop:
  "\<forall>j. log_write_exn (flt j) = None \<and> progress_exn (flt j) = None \<Longrightarrow>
   counted (snd (copy_loop cfg None flt bp n i files cs)) = counted (snd cs) + length files"
proof (induction files arbitrary: i cs)
  case Nil
  then show ?case by simp
next
  case (Cons fi files)
  have "counted (snd (copy_item cfg bp n i fi (flt i) (fst cs, poll (snd cs))))
      = Suc (counted (snd cs))"
    using Cons.prems by (simp add: counted_copy_item)
  then show ?case
    using Cons.IH [OF Cons.prems] by (simp add: is_set_def)
qed

lemma counted_archive_item:
  "progress_exn flt = None \<Longrightarrow>
   counted (archive_item cfg n i fi flt s) = Suc (counted s)"
  by (simp add: archive_item_def archive_handler_def Let_def split: sum.splits option.splits)

lemma counted_archive_loop:
  "\<forall>j. progress_exn (flt j) = None \<Longrightarrow>
   counted (archive_loop cfg None flt n i files s) = counted s + length files"
proof (induction files arbitrary: i s)
  case Nil
  then show ?case by simp
next
  case (Cons fi files)
  then show ?case
    by (simp add: is_set_def counted_archive_item)
qed

lemma total_copy_item:
  "total_files (stats (snd (copy_item cfg bp n i fi flt cs))) = total_files (stats (snd cs))"
  by (simp add: copy_item_def copy_handler_def inc_skipped_def inc_copied_def log_event_def
      Let_def split: sum.splits option.splits)

lemma total_copy_loop:
  "total_files (stats (snd (copy_loop cfg stop_at flt bp n i files cs)))
     = total_files (stats (snd cs))"
  by (induction files arbitrary: i cs)
    (simp_all add: total_copy_item poll_def log_event_def)

lemma total_archive_item:
  "total_files (stats (archive_item cfg n i fi flt s)) = total_files (stats s)"
  by (simp add: archive_item_def archive_handler_def inc_skipped_def inc_copied_def
      log_event_def Let_def split: sum.splits option.splits)

lemma total_archive_loop:
  "total_files (stats (archive_loop cfg stop_at flt n i files s)) = total_files (stats s)"
  by (induction files arbitrary: i s) (simp_all add: total_archive_item poll_def)

lemma copy_files_tally:
  assumes "\<forall>j. log_write_exn (flt j) = None \<and> progress_exn (flt j) = None"
    and "fst (copy_files cfg None rf flt bp files s) = None"
  shows "counted (snd (copy_files cfg None rf flt bp files s)) = counted s + length files"
    and "total_files (stats (snd (copy_files cfg None rf flt bp files s)))
         = total_files (stats s)"
  using assms
  by (simp_all add: copy_files_def Let_def counted_copy_loop total_copy_loop
      split: option.splits)

lemma create_compressed_backup_tally:
  assumes "\<forall>j. log_write_exn (flt j) = None \<and> progress_exn (flt j) = None"
    and "fst (create_compressed_backup cfg None rf flt bp files s) = None"
  shows "counted (snd (create_compressed_backup cfg None rf flt bp files s))
         = counted s + length files"
    and "total_files (stats (snd (create_compressed_backup cfg None rf flt bp files s)))
         = total_files (stats s)"
  using assms
  by (simp_all add: create_compressed_backup_def Let_def counted_archive_loop
      total_archive_loop split: option.splits)

text \<open>
  The tally of a local run that is not stopped and returns normally, with a manager whose
  two counters start at 0: if no write to the log and no call of the progress callback
  raises, then \<^verbatim>\<open>files_copied + files_skipped == total_files\<close> at the end (a file that
  fails counts as skipped; there is no counter of failed files).
\<close>

theorem local_tally:
  assumes "\<forall>j. log_write_exn (flt j) = None \<and> progress_exn (flt j) = None"
    and "fst (start_backup cfg None rf flt now s) = None"
    and "files_copied (stats s) = 0" "files_skipped (stats s) = 0"
  shows "files_copied (stats (snd (start_backup cfg None rf flt now s)))
         + files_skipped (stats (snd (start_backup cfg None rf flt now s)))
       = total_files (stats (snd (start_backup cfg None rf flt now s)))"
proof -
  have z: "counted s = 0" using assms(3,4) by (simp add: counted_def)
  have c: "counted (snd (collect_files cfg None t)) = counted t" for t
    by (rule counted_collect_files)
  have "counted (snd (start_backup cfg None rf flt now s))
       = total_files (stats (snd (start_backup cfg None rf flt now s)))"
    using assms(2) z
    by (auto simp: start_backup_def Let_def c copy_files_tally [OF assms(1)]
        create_compressed_backup_tally [OF assms(1)]
        split: sum.splits option.splits if_splits)
  then show ?thesis by (simp add: counted_def)
qed

theorem local_tally_witness:
  "files_copied (stats first_run) + files_skipped (stats first_run)
     = total_files (stats first_run)
   \<and> total_files (stats first_run) = 2"
proof -
  have f: "\<forall>j. log_write_exn ((\<lambda>i. no_faults) j) = None
             \<and> progress_exn ((\<lambda>i. no_faults) j) = None"
    by (simp add: no_faults_def)
  have n: "fst (start_backup two_files_cfg None no_run_faults (\<lambda>i. no_faults)
                  ''20260101_000000'' (init_state two_files_tree)) = None"
    by code_simp
  have z: "files_copied (stats (init_state two_files_tree)) = 0"
    "files_skipped (stats (init_state two_files_tree)) = 0"
    by (simp_all add: init_state_def init_stats_def)
  have t: "total_files (stats first_run) = 2"
    by code_simp
  from local_tally [OF f n z] t show ?thesis
    by (simp add: first_run_def)
qed

text \<open>
  C1 at a local run whose write of the line of the first item to \<^verbatim>\<open>backup_log.txt\<close>
  raises (a \<^verbatim>\<open>UnicodeEncodeError\<close> for a file name that UTF-8 cannot encode, an
  \<^verbatim>\<open>OSError\<close> for a full disk): the file is copied and counted, then the handler
  counts it as skipped too. The run returns normally with 2 files copied and 1 skipped,
  of 2.
\<close>

theorem log_write_failure_counts_twice:
  "fst (start_backup two_files_cfg None no_run_faults
          (\<lambda>i. if i = 0 then no_faults\<lparr>log_write_exn := Some OtherError\<rparr> else no_faults)
          ''20260101_000000'' (init_state two_files_tree)) = None
   \<and> stats (snd (start_backup two_files_cfg None no_run_faults
          (\<lambda>i. if i = 0 then no_faults\<lparr>log_write_exn := Some OtherError\<rparr> else no_faults)
          ''20260101_000000'' (init_state two_files_tree)))
       = \<lparr>total_files = 2, files_copied = 2, files_skipped = 1, total_size = 30\<rparr>"
  by code_simp

text \<open>
  C10 at a local run of two items: the copy of the first raises \<^verbatim>\<open>PermissionError\<close>,
  which counts it as skipped, and the loop goes on; the second is copied and counted, then
  the write of its line to the log raises, and the handler counts it as skipped too. Two
  items are processed, and \<^verbatim>\<open>files_copied + files_skipped\<close> is 3.
\<close>

theorem error_after_copy_counts_twice:
  "stats (snd (start_backup two_files_cfg None no_run_faults
          (\<lambda>i. if i = 0 then no_faults\<lparr>copy_exn := Some PermissionError\<rparr>
                else no_faults\<lparr>log_write_exn := Some OSError\<rparr>)
          ''20260101_000000'' (init_state two_files_tree)))
       = \<lparr>total_files = 2, files_copied = 1, files_skipped = 2, total_size = 30\<rparr>
   \<and> events (snd (start_backup two_files_cfg None no_run_faults
          (\<lambda>i. if i = 0 then no_faults\<lparr>copy_exn := Some PermissionError\<rparr>
                else no_faults\<lparr>log_write_exn := Some OSError\<rparr>)
          ''20260101_000000'' (init_state two_files_tree)))
       = [(MsgStart, info), (MsgSources 1 0, info), (MsgTarget [''dst''], info),
          (MsgFound 2, info),
          (MsgNoPermission [''src'', ''a.txt''] PermissionError, warning),
          (MsgCopyError [''src'', ''sub'', ''b.txt''] OSError, warning),
          (MsgDone, success), (MsgStatistics 1 2, info)]"
  by code_simp

subsection \<open>The remote skip decision\<close>

lemma read_chunks_eq:
  "read_chunks k rest fed = (if k = 0 then fed else fed @ rest)"
proof (induction k rest fed rule: read_chunks.induct)
  case (1 k rest fed)
  show ?case
  proof (cases "take k rest = []")
    case True
    then have "read_chunks k rest fed = fed"
      by (subst read_chunks.simps) (simp add: Let_def)
    moreover have "k = 0 \<or> rest = []" using True by simp
    ultimately show ?thesis by auto
  next
    case False
    then have k: "k \<noteq> 0" by auto
    have "read_chunks k rest fed = read_chunks k (drop k rest) (fed @ take k rest)"
      using False by (subst read_chunks.simps) (simp add: Let_def)
    also have "\<dots> = (fed @ take k rest) @ drop k rest"
      using 1 [OF refl False] k by simp
    finally show ?thesis using k by simp
  qed
qed

lemma calculate_md5_whole: "calculate_md5 md5_hex content = md5_hex content"
  by (simp add: calculate_md5_def read_chunks_eq)

lemma py_int_of_int [simp]: "py_int (of_int n) = n"
  by (simp add: py_int_def)

lemma py_int_mono: "x \<le> y \<Longrightarrow> py_int x \<le> py_int y"
proof -
  assume xy: "x \<le> y"
  consider "0 \<le> x" | "x < 0" "0 \<le> y" | "x < 0" "y < 0" by linarith
  then show ?thesis
  proof cases
    case 1
    then show ?thesis using xy by (simp add: py_int_def floor_mono)
  next
    case 2
    have "\<lceil>x\<rceil> \<le> 0" using 2(1) by simp
    moreover have "0 \<le> \<lfloor>y\<rfloor>" using 2(2) by simp
    ultimately have "\<lceil>x\<rceil> \<le> \<lfloor>y\<rfloor>" by linarith
    moreover have "\<not> 0 \<le> x" using 2(1) by simp
    ultimately show ?thesis using 2(2) by (simp only: py_int_def if_True if_False)
  next
    case 3
    then show ?thesis using xy by (simp add: py_int_def ceiling_mono)
  qed
qed

text \<open>The first tier: the remote size equals the local size and the remote time is not
  before the local time, so the item is skipped.\<close>

lemma metadata_tier:
  assumes "incremental cfg"
    and "sftp_stat env rp = Inr \<lparr>st_size = Value rsize, st_mtime = Value rmtime\<rparr>"
    and "os_getsize env lp = Inr lsize" "os_getmtime env lp = Inr lmtime"
    and "rsize = lsize" "of_int rmtime \<ge> lmtime"
  shows "should_skip_incremental cfg md5_hex env lp rp"
proof -
  have "py_int lmtime \<le> py_int (of_int rmtime)"
    using assms(6) by (rule py_int_mono)
  then have "py_int lmtime \<le> rmtime"
    by (simp only: py_int_of_int)
  then show ?thesis
    using assms(1-5)
    by (simp add: should_skip_incremental_def metadata_check_def int_getattr_def)
qed

lemma py_eq_str_bytes: "(\<forall>t. v \<noteq> PyStr t) \<Longrightarrow> \<not> py_eq (PyStr a) (py_strip v)"
  by (cases v) simp_all


text \<open>The second tier, when it is reached and both reads succeed: what \<^verbatim>\<open>==\<close> says of
  the digest of the local file, a \<^verbatim>\<open>str\<close>, and the content of the side file.\<close>

lemma hash_tier:
  assumes "incremental cfg" "use_hash_check cfg"
    and "metadata_check env lp rp \<noteq> Inr True"
    and "sftp_read env (hash_path rp) = Inr v" "read_bytes env lp = Inr content"
  shows "should_skip_incremental cfg md5_hex env lp rp
           = py_eq (PyStr (md5_hex content)) (py_strip v)"
  using assms
  by (simp add: should_skip_incremental_def hash_check_def calculate_md5_whole)

lemma hash_check_bytes:
  "\<forall>t. sftp_read env (hash_path rp) \<noteq> Inr (PyStr t) \<Longrightarrow>
   hash_check md5_hex env lp rp \<noteq> Inr True"
  using py_eq_str_bytes
  by (auto simp: hash_check_def Let_def split: sum.splits)

lemma metadata_check_stat_error:
  "sftp_stat env rp = Inl e \<Longrightarrow> metadata_check env lp rp = Inl e"
  by (simp add: metadata_check_def)

text \<open>
  C5: an exception of the session during either check of \<^verbatim>\<open>_should_skip_incremental\<close>
  (\<^verbatim>\<open>sftp.stat\<close> raises, or the metadata check has not decided and the read of the side
  file raises) gives no skip. The handler of the first check passes on to the hash check,
  so this rests on what the hash check can return: the read of the side file gives
  \<^verbatim>\<open>bytes\<close>, as paramiko's \<^verbatim>\<open>SFTPFile.read\<close> does, and never a \<^verbatim>\<open>str\<close>.
\<close>

theorem error_means_no_skip:
  assumes "\<forall>t. sftp_read env (hash_path rp) \<noteq> Inr (PyStr t)"
    and "sftp_stat env rp = Inl e
         \<or> (metadata_check env lp rp \<noteq> Inr True \<and> sftp_read env (hash_path rp) = Inl e)"
  shows "\<not> should_skip_incremental cfg md5_hex env lp rp"
proof -
  have m: "metadata_check env lp rp \<noteq> Inr True"
    using assms(2) metadata_check_stat_error [of env rp e lp] by auto
  have h: "hash_check md5_hex env lp rp \<noteq> Inr True"
    using assms(1) by (rule hash_check_bytes)
  show ?thesis
    using m h by (auto simp: should_skip_incremental_def split: sum.splits)
qed

theorem error_means_no_skip_witness:
  "sftp_stat (stat_error_env digest_of_hello) [''backup'', ''src'', ''a.txt''] = Inl OSError
   \<and> sftp_read (stat_error_env digest_of_hello) (hash_path [''backup'', ''src'', ''a.txt''])
       = Inr (PyBytes ''5d41402abc4b2a76b9719d911017c592'')
   \<and> \<not> should_skip_incremental upload_rcfg digest_of_hello (stat_error_env digest_of_hello)
         [''src'', ''a.txt''] [''backup'', ''src'', ''a.txt'']"
proof -
  have b: "\<forall>t. sftp_read (stat_error_env digest_of_hello)
               (hash_path [''backup'', ''src'', ''a.txt'']) \<noteq> Inr (PyStr t)"
    by (simp add: stat_error_env_def touched_env_def)
  have e: "sftp_stat (stat_error_env digest_of_hello) [''backup'', ''src'', ''a.txt'']
      = Inl OSError"
    by (simp add: stat_error_env_def)
  from error_means_no_skip [OF b disjI1 [OF e]] e
  show ?thesis
    by (simp add: stat_error_env_def touched_env_def digest_of_hello_def)
qed

text \<open>
  C4 at a local file that was touched and not changed: the metadata check does not decide
  (the remote copy is older), the hash check is on, and the side file holds the digest of
  the content of the local file. The digest read from the session is a \<^verbatim>\<open>bytes\<close>, the
  digest of the local file a \<^verbatim>\<open>str\<close>, and \<^verbatim>\<open>local_hash == remote_hash\<close> is false: the
  item is not skipped.
\<close>

theorem sidecar_digest_never_matches:
  "metadata_check (touched_env md5_hex) [''src'', ''a.txt''] [''backup'', ''src'', ''a.txt'']
     = Inr False
   \<and> sftp_read (touched_env md5_hex) (hash_path [''backup'', ''src'', ''a.txt''])
       = Inr (PyBytes (md5_hex ''hello''))
   \<and> read_bytes (touched_env md5_hex) [''src'', ''a.txt''] = Inr ''hello''
   \<and> calculate_md5 md5_hex ''hello'' = md5_hex ''hello''
   \<and> incremental upload_rcfg \<and> use_hash_check upload_rcfg
   \<and> \<not> should_skip_incremental upload_rcfg md5_hex (touched_env md5_hex)
         [''src'', ''a.txt''] [''backup'', ''src'', ''a.txt'']"
  by (simp add: should_skip_incremental_def metadata_check_def hash_check_def touched_env_def
      upload_rcfg_def int_getattr_def py_int_def calculate_md5_whole)

subsection \<open>The upload workers\<close>

lemma held_busy: "held s = length (filter busy (workers s))"
  by (simp add: held_def)

lemma filter_update_count:
  "i < length xs \<Longrightarrow>
   length (filter P (xs[i := x])) + (if P (xs ! i) then 1 else 0)
     = length (filter P xs) + (if P x then 1 else 0)"
proof (induction xs arbitrary: i)
  case Nil
  then show ?case by simp
next
  case (Cons a xs)
  show ?case
  proof (cases i)
    case 0
    then show ?thesis by simp
  next
    case (Suc j)
    then have "j < length xs" using Cons.prems by simp
    from Cons.IH [OF this] Suc show ?thesis by simp
  qed
qed

lemma held_take:
  "w < length (workers s) \<Longrightarrow> workers s ! w = Polling \<Longrightarrow>
   held (s\<lparr>queue := q, workers := (workers s)[w := Holding item]\<rparr>) = Suc (held s)"
  using filter_update_count [of w "workers s" busy "Holding item"]
  by (simp add: held_busy busy_def)

lemma held_exit:
  "w < length (workers s) \<Longrightarrow> workers s ! w = Polling \<Longrightarrow>
   held (s\<lparr>workers := (workers s)[w := Exited]\<rparr>) = held s"
  using filter_update_count [of w "workers s" busy Exited]
  by (simp add: held_busy busy_def)

lemma held_release:
  "w < length (workers s) \<Longrightarrow> workers s ! w = Holding item \<Longrightarrow>
   Suc (length (filter busy ((workers s)[w := Polling]))) = held s"
  using filter_update_count [of w "workers s" busy Polling]
  by (simp add: held_busy busy_def)

text \<open>What the handling of one item does to the shared state.\<close>

lemma handle_item_frame:
  "queue (handle_item cfg md5_hex env w item s) = queue s
   \<and> workers (handle_item cfg md5_hex env w item s) = workers s
   \<and> stop_flag (handle_item cfg md5_hex env w item s) = stop_flag s
   \<and> unfinished_tasks (handle_item cfg md5_hex env w item s) = unfinished_tasks s - 1
   \<and> total_files (rstats (handle_item cfg md5_hex env w item s)) = total_files (rstats s)"
  by (simp add: handle_item_def task_done_def Let_def split: option.splits)

lemma handle_item_counts:
  "files_copied (rstats (handle_item cfg md5_hex env w item s))
     + skipped (rstats (handle_item cfg md5_hex env w item s))
     + failed (rstats (handle_item cfg md5_hex env w item s))
   = Suc (files_copied (rstats s) + skipped (rstats s) + failed (rstats s))"
  by (simp add: handle_item_def task_done_def Let_def split: option.splits)

lemma tally_inv_step: "tally_inv s \<Longrightarrow> tally_inv (step cfg md5_hex s ev)"
proof (cases ev)
  case Stop
  assume "tally_inv s"
  then show ?thesis by (simp add: Stop step_def tally_inv_def held_def)
next
  case (Poll w)
  assume i: "tally_inv s"
  show ?thesis
  proof (cases "w < length (workers s) \<and> workers s ! w = Polling")
    case False
    then show ?thesis using i by (auto simp: Poll step_def)
  next
    case True
    then have e: "held (s\<lparr>workers := (workers s)[w := Exited]\<rparr>) = held s" for x
      by (simp add: held_exit)
    show ?thesis
    proof (cases "stop_flag s \<or> queue s = []")
      case True
      then show ?thesis
        using i \<open>w < length (workers s) \<and> workers s ! w = Polling\<close> e
        by (auto simp: Poll step_def tally_inv_def split: list.splits)
    next
      case False
      then obtain item rest where q: "queue s = item # rest" by (cases "queue s") auto
      have "held (s\<lparr>queue := rest, workers := (workers s)[w := Holding item]\<rparr>) = Suc (held s)"
        using True by (simp add: held_take)
      then show ?thesis
        using i True False q by (simp add: Poll step_def tally_inv_def)
    qed
  qed
next
  case (Work w env)
  assume i: "tally_inv s"
  show ?thesis
  proof (cases "w < length (workers s)")
    case False
    then show ?thesis using i by (simp add: Work step_def)
  next
    case True
    show ?thesis
    proof (cases "workers s ! w")
      case Polling
      then show ?thesis using i True by (simp add: Work step_def)
    next
      case Exited
      then show ?thesis using i True by (simp add: Work step_def)
    next
      case (Holding item)
      let ?h = "handle_item cfg md5_hex env w item s"
      have r: "Suc (length (filter busy ((workers s)[w := Polling]))) = held s"
        using True Holding by (rule held_release)
      then have u: "unfinished_tasks s = Suc (length (queue s)
          + length (filter busy ((workers s)[w := Polling])))"
        using i by (simp add: tally_inv_def)
      have "step cfg md5_hex s ev = ?h\<lparr>workers := (workers s)[w := Polling]\<rparr>"
        using True Holding by (simp add: Work step_def)
      then show ?thesis
        using i u handle_item_frame [of cfg md5_hex env w item s]
          handle_item_counts [of cfg md5_hex env w item s]
        by (simp add: tally_inv_def held_busy)
    qed
  qed
qed

lemma total_files_step:
  "total_files (rstats (step cfg md5_hex s ev)) = total_files (rstats s)"
  by (cases ev) (simp_all add: step_def handle_item_frame split: list.splits worker.splits)

lemma total_files_run:
  "total_files (rstats (run cfg md5_hex evs s)) = total_files (rstats s)"
  unfolding run_def
  by (induction evs arbitrary: s) (simp_all add: total_files_step)

lemma tally_inv_run: "tally_inv s \<Longrightarrow> tally_inv (run cfg md5_hex evs s)"
  unfolding run_def
  by (induction evs arbitrary: s) (simp_all add: tally_inv_step)

lemma held_replicate: "length (filter busy (replicate n Polling)) = 0"
  by (simp add: busy_def)

lemma tally_inv_start:
  "total_files st = length items \<Longrightarrow> files_copied st = 0 \<Longrightarrow> skipped st = 0 \<Longrightarrow>
   failed st = 0 \<Longrightarrow> tally_inv (start_pool cfg items st stopped)"
  by (simp add: tally_inv_def start_pool_def held_busy held_replicate)

text \<open>
  The tally of a remote run, for every order in which the workers and \<^verbatim>\<open>stop()\<close> take
  their steps: once \<^verbatim>\<open>self._queue.join()\<close> returns, \<^verbatim>\<open>files_copied + skipped + failed\<close>
  is the number of items of the manifest.
\<close>

theorem upload_tally:
  assumes "total_files st = length items" "files_copied st = 0" "skipped st = 0" "failed st = 0"
    and "joined (run cfg md5_hex evs (start_pool cfg items st stopped))"
  shows "files_copied (rstats (run cfg md5_hex evs (start_pool cfg items st stopped)))
       + skipped (rstats (run cfg md5_hex evs (start_pool cfg items st stopped)))
       + failed (rstats (run cfg md5_hex evs (start_pool cfg items st stopped)))
       = length items"
proof -
  have "tally_inv (run cfg md5_hex evs (start_pool cfg items st stopped))"
    using assms(1-4) by (intro tally_inv_run tally_inv_start)
  moreover have "total_files (rstats (run cfg md5_hex evs (start_pool cfg items st stopped)))
      = length items"
    by (simp add: total_files_run start_pool_def assms(1))
  ultimately show ?thesis using assms(5) by (simp add: tally_inv_def joined_def)
qed

theorem upload_tally_witness:
  "joined (run upload_rcfg digest_of_hello
             [Poll 0, Poll 1, Work 1 (touched_env digest_of_hello), Work 0 no_session_env]
             two_items_pool)
   \<and> rstats (run upload_rcfg digest_of_hello
             [Poll 0, Poll 1, Work 1 (touched_env digest_of_hello), Work 0 no_session_env]
             two_items_pool)
       = \<lparr>total_files = 2, files_copied = 1, total_size_mb = 0, skipped = 0, failed = 1\<rparr>"
proof -
  let ?r = "run upload_rcfg digest_of_hello
             [Poll 0, Poll 1, Work 1 (touched_env digest_of_hello), Work 0 no_session_env]
             (start_pool upload_rcfg two_items (init_rstats\<lparr>total_files := 2\<rparr>) False)"
  have j: "joined ?r" by code_simp
  have v: "rstats ?r
      = \<lparr>total_files = 2, files_copied = 1, total_size_mb = 0, skipped = 0, failed = 1\<rparr>"
    by code_simp
  have a: "total_files (init_rstats\<lparr>total_files := 2\<rparr>) = length two_items"
    "files_copied (init_rstats\<lparr>total_files := 2\<rparr>) = 0"
    "skipped (init_rstats\<lparr>total_files := 2\<rparr>) = 0"
    "failed (init_rstats\<lparr>total_files := 2\<rparr>) = 0"
    by (simp_all add: init_rstats_def two_items_def)
  from upload_tally [OF a j] j v show ?thesis
    by (simp add: two_items_pool_def)
qed

lemma upload_file_failed_log:
  "\<not> fst (upload_file cfg env lp rp rel) \<Longrightarrow>
   \<exists>ex. snd (upload_file cfg env lp rp rel) = [(MsgUploadError rel ex, error)]"
  by (auto simp: upload_file_def split: option.splits sum.splits if_splits)

lemma queue_step_suffix: "suffix (queue (step cfg md5_hex s ev)) (queue s)"
  by (cases ev)
    (auto simp: step_def handle_item_frame suffix_def split: list.splits worker.splits)

lemma queue_run_suffix: "suffix (queue (run cfg md5_hex evs s)) (queue s)"
proof (induction evs arbitrary: s)
  case Nil
  then show ?case by (simp add: run_def)
next
  case (Cons ev evs)
  have "suffix (queue (run cfg md5_hex evs (step cfg md5_hex s ev)))
          (queue (step cfg md5_hex s ev))"
    by (rule Cons.IH)
  then show ?case
    using queue_step_suffix [of cfg md5_hex s ev]
    by (auto simp: run_def intro: suffix_order.trans)
qed

lemma handle_item_failed:
  assumes "\<not> should_skip_incremental cfg md5_hex env (fst item) (remote_target_dir cfg @ snd item)"
    and "\<not> fst (upload_file cfg env (fst item) (remote_target_dir cfg @ snd item) (snd item))"
  shows "failed (rstats (handle_item cfg md5_hex env w item s)) = failed (rstats s) + 1"
    and "files_copied (rstats (handle_item cfg md5_hex env w item s)) = files_copied (rstats s)"
    and "skipped (rstats (handle_item cfg md5_hex env w item s)) = skipped (rstats s)"
    and "rlog (handle_item cfg md5_hex env w item s)
         = rlog s @ snd (upload_file cfg env (fst item) (remote_target_dir cfg @ snd item) (snd item))"
  using assms by (simp_all add: handle_item_def task_done_def Let_def)

text \<open>
  C7: a worker holds an item that is not skipped and whose \<^verbatim>\<open>_upload_file\<close> fails. The
  step logs one error with the relative path of the item, adds one to \<^verbatim>\<open>failed\<close> and
  nothing to the two other counters, and leaves the worker at the head of its loop with
  the queue as it was: the worker takes the next item at its next poll, and whatever
  happens later, the queue only loses items from its head, so the item is never queued
  again.
\<close>

theorem failed_upload_counted_once:
  assumes "w < length (workers s)" "workers s ! w = Holding (local_path, remote_rel)"
    and "\<not> should_skip_incremental cfg md5_hex env local_path
             (remote_target_dir cfg @ remote_rel)"
    and "\<not> fst (upload_file cfg env local_path (remote_target_dir cfg @ remote_rel) remote_rel)"
    and "s' = step cfg md5_hex s (Work w env)"
  shows "failed (rstats s') = failed (rstats s) + 1
     \<and> files_copied (rstats s') = files_copied (rstats s)
     \<and> skipped (rstats s') = skipped (rstats s)
     \<and> (\<exists>ex. rlog s' = rlog s @ [(MsgUploadError remote_rel ex, error)])
     \<and> workers s' ! w = Polling
     \<and> queue s' = queue s
     \<and> (\<forall>evs. suffix (queue (run cfg md5_hex evs s')) (queue s))
     \<and> (\<forall>item rest. queue s = item # rest \<and> \<not> stop_flag s \<longrightarrow>
           workers (step cfg md5_hex s' (Poll w)) ! w = Holding item)"
proof -
  let ?item = "(local_path, remote_rel)"
  let ?h = "handle_item cfg md5_hex env w ?item s"
  have s': "s' = ?h\<lparr>workers := (workers s)[w := Polling]\<rparr>"
    using assms(1,2,5) by (simp add: step_def)
  have a: "\<not> should_skip_incremental cfg md5_hex env (fst ?item)
             (remote_target_dir cfg @ snd ?item)"
    "\<not> fst (upload_file cfg env (fst ?item) (remote_target_dir cfg @ snd ?item) (snd ?item))"
    using assms(3,4) by simp_all
  note h = handle_item_failed [OF a, of w s] handle_item_frame [of cfg md5_hex env w ?item s]
  obtain ex where ex: "snd (upload_file cfg env local_path (remote_target_dir cfg @ remote_rel)
      remote_rel) = [(MsgUploadError remote_rel ex, error)]"
    using upload_file_failed_log [OF assms(4)] by blast
  have 1: "failed (rstats s') = failed (rstats s) + 1"
    "files_copied (rstats s') = files_copied (rstats s)"
    "skipped (rstats s') = skipped (rstats s)"
    using h by (simp_all add: s')
  have 2: "rlog s' = rlog s @ [(MsgUploadError remote_rel ex, error)]"
    using h(4) ex by (simp add: s')
  have 3: "workers s' ! w = Polling" "queue s' = queue s" "stop_flag s' = stop_flag s"
    "length (workers s') = length (workers s)"
    using h assms(1) by (simp_all add: s')
  have 4: "suffix (queue (run cfg md5_hex evs s')) (queue s)" for evs
    using queue_run_suffix [of cfg md5_hex evs s'] 3(2) by simp
  have 5: "workers (step cfg md5_hex s' (Poll w)) ! w = Holding item"
    if "queue s = item # rest" "\<not> stop_flag s" for item rest
    using that 3 assms(1) by (simp add: step_def)
  show ?thesis
    using 1 2 3 4 5 by blast
qed

theorem failed_upload_witness:
  "failed (rstats (run upload_rcfg digest_of_hello [Poll 0, Work 0 no_session_env]
                     two_items_pool)) = 1
   \<and> queue (run upload_rcfg digest_of_hello [Poll 0, Work 0 no_session_env] two_items_pool)
       = [([''src'', ''sub'', ''b.txt''], [''src'', ''sub'', ''b.txt''])]
   \<and> workers (run upload_rcfg digest_of_hello [Poll 0, Work 0 no_session_env, Poll 0]
                  two_items_pool) ! 0
       = Holding ([''src'', ''sub'', ''b.txt''], [''src'', ''sub'', ''b.txt''])"
proof -
  let ?s = "step upload_rcfg digest_of_hello two_items_pool (Poll 0)"
  have h1: "0 < length (workers ?s)" by code_simp
  have h2: "workers ?s ! 0 = Holding ([''src'', ''a.txt''], [''src'', ''a.txt''])"
    by code_simp
  have h3: "\<not> should_skip_incremental upload_rcfg digest_of_hello no_session_env
               [''src'', ''a.txt''] (remote_target_dir upload_rcfg @ [''src'', ''a.txt''])"
    by code_simp
  have h4: "\<not> fst (upload_file upload_rcfg no_session_env [''src'', ''a.txt'']
               (remote_target_dir upload_rcfg @ [''src'', ''a.txt'']) [''src'', ''a.txt''])"
    by code_simp
  have f0: "failed (rstats ?s) = 0" "\<not> stop_flag ?s"
    "queue ?s = [([''src'', ''sub'', ''b.txt''], [''src'', ''sub'', ''b.txt''])]"
    by code_simp+
  from failed_upload_counted_once [OF h1 h2 h3 h4 refl] f0
  show ?thesis
    by (simp add: run_def)
qed

subsection \<open>Hidden entries of source directories\<close>

lemma visible_simps [simp]:
  "visible []" "visible (p @ q) = (visible p \<and> visible q)"
  "visible [d] = (\<not> startswith_dot d)"
  by (simp_all add: visible_def)

lemma walk_roots:
  "sh \<Longrightarrow> w \<in> set (walk sh rt n) \<Longrightarrow> \<exists>ds. fst w = rt @ ds \<and> visible ds"
  "sh \<Longrightarrow> w \<in> set (walk_dirs sh rt es) \<Longrightarrow> \<exists>ds. fst w = rt @ ds \<and> visible ds"
proof (induction sh rt n and sh rt es arbitrary: w and w rule: walk_walk_dirs.induct)
  case (1 sh rt es)
  from "1.prems"(2) consider "fst w = rt" | "w \<in> set (walk_dirs sh rt es)"
    by auto
  then show ?case
  proof cases
    case 1
    then show ?thesis by (intro exI [of _ "[]"]) simp
  next
    case 2
    then show ?thesis using "1.IH" "1.prems"(1) by blast
  qed
next
  case (2 sh rt sz mt)
  then show ?case by simp
next
  case (3 sh rt)
  then show ?case by simp
next
  case (4 sh rt)
  then show ?case by simp
next
  case (5 sh rt e es)
  from "5.prems" consider
    (a) "is_Dir (snd e)" "\<not> startswith_dot (fst e)" "w \<in> set (walk sh (rt @ [fst e]) (snd e))"
    | (b) "w \<in> set (walk_dirs sh rt es)"
    by (auto split: if_splits)
  then show ?case
  proof cases
    case a
    have "is_Dir (snd e) \<and> \<not> (sh \<and> startswith_dot (fst e))" using a by simp
    from "5.IH"(1) [OF this "5.prems"(1) a(3)]
    obtain ds where "fst w = (rt @ [fst e]) @ ds" "visible ds"
      by auto
    then show ?thesis using a(2) by (intro exI [of _ "fst e # ds"]) (simp add: visible_def)
  next
    case b
    then show ?thesis using "5.IH"(2) "5.prems"(1) by blast
  qed
qed

lemma os_walk_roots:
  "sh \<Longrightarrow> w \<in> set (os_walk sh tree d) \<Longrightarrow> \<exists>ds. fst w = d @ ds \<and> visible ds"
proof -
  assume sh: "sh" and w: "w \<in> set (os_walk sh tree d)"
  then obtain n where "w \<in> set (walk sh d n)"
    by (auto simp: os_walk_def split: option.splits)
  with sh show ?thesis by (rule walk_roots(1))
qed

lemma dir_items_visible_simps [simp]:
  "dir_items_visible []"
  "dir_items_visible [fi] = (source_type fi = SrcFile \<or> visible (relative_path fi))"
  by (simp_all add: dir_items_visible_def)

lemma dir_items_visible_append [simp]:
  "dir_items_visible (a @ b) = (dir_items_visible a \<and> dir_items_visible b)"
  by (simp add: dir_items_visible_def)

lemma visible_collect_walk_files:
  "skip_hidden cfg \<Longrightarrow> visible ds \<Longrightarrow> dir_items_visible (fst r) \<Longrightarrow>
   dir_items_visible (fst (snd (collect_walk_files cfg stop_at d (d @ ds) fns r)))"
proof (induction fns arbitrary: r)
  case Nil
  then show ?case by (cases r) simp
next
  case (Cons f fns)
  obtain a s where r: "r = (a, s)" by (cases r)
  note ih = Cons.IH [OF Cons.prems(1,2)]
  have a: "dir_items_visible a" using Cons.prems(3) by (simp add: r)
  show ?case
  proof (cases "is_set stop_at (polls s)")
    case True
    then show ?thesis using a by (simp add: r)
  next
    case False
    show ?thesis
    proof (cases "startswith_dot f")
      case True
      then show ?thesis using False a Cons.prems(1) by (simp add: r Let_def ih)
    next
      case nd: False
      show ?thesis
      proof (cases "getsize (fs (poll s)) (d @ ds @ [f])")
        case (Inl e)
        then show ?thesis using False nd a by (simp add: r Let_def ih)
      next
        case (Inr sz)
        then show ?thesis using False nd a Cons.prems(2) by (simp add: r Let_def ih)
      qed
    qed
  qed
qed

lemma visible_collect_walk:
  "skip_hidden cfg \<Longrightarrow> \<forall>w \<in> set ws. \<exists>ds. fst w = d @ ds \<and> visible ds \<Longrightarrow>
   dir_items_visible (fst r) \<Longrightarrow>
   dir_items_visible (fst (snd (collect_walk cfg stop_at d ws r)))"
proof (induction ws arbitrary: r)
  case Nil
  then show ?case by (cases r) simp
next
  case (Cons w ws)
  obtain a s where r: "r = (a, s)" by (cases r)
  obtain b r' where c: "collect_walk_files cfg stop_at d (fst w) (snd w) (a, s) = (b, r')"
    by (cases "collect_walk_files cfg stop_at d (fst w) (snd w) (a, s)")
  obtain ds where ds: "fst w = d @ ds" "visible ds" using Cons.prems(2) by auto
  have v: "dir_items_visible (fst r')"
    using visible_collect_walk_files [OF Cons.prems(1) ds(2), of "(a, s)" stop_at d "snd w"]
      Cons.prems(3) c by (simp add: r ds(1))
  have ws: "\<forall>w \<in> set ws. \<exists>ds. fst w = d @ ds \<and> visible ds" using Cons.prems(2) by simp
  show ?case
    using v Cons.IH [OF Cons.prems(1) ws, of r'] by (cases b) (simp_all add: r c)
qed

lemma visible_collect_dirs:
  "skip_hidden cfg \<Longrightarrow> dir_items_visible (fst r) \<Longrightarrow>
   dir_items_visible (fst (snd (collect_dirs cfg stop_at dirs r)))"
proof (induction dirs arbitrary: r)
  case Nil
  then show ?case by (cases r) simp
next
  case (Cons d dirs)
  obtain a s where r: "r = (a, s)" by (cases r)
  note ih = Cons.IH [OF Cons.prems(1)]
  have a: "dir_items_visible a" using Cons.prems(2) by (simp add: r)
  let ?ws = "os_walk (skip_hidden cfg) (fs (poll s)) d"
  obtain b r' where c: "collect_walk cfg stop_at d ?ws (a, poll s) = (b, r')"
    by (cases "collect_walk cfg stop_at d ?ws (a, poll s)")
  have "\<forall>w \<in> set ?ws. \<exists>ds. fst w = d @ ds \<and> visible ds"
    using os_walk_roots [OF Cons.prems(1)] by blast
  from visible_collect_walk [OF Cons.prems(1) this, of "(a, poll s)" stop_at]
  have v: "dir_items_visible (fst r')"
    using a by (simp add: c)
  show ?case
  proof (cases "is_set stop_at (polls s)")
    case True
    then show ?thesis using a by (simp add: r)
  next
    case False
    show ?thesis
    proof (cases "exists_path (fs (poll s)) d")
      case False
      then show ?thesis using \<open>\<not> is_set stop_at (polls s)\<close> a
        by (simp add: r Let_def ih)
    next
      case True
      then show ?thesis using False v
        by (cases b) (simp_all add: r Let_def c ih)
    qed
  qed
qed

lemma visible_collect_loose:
  "dir_items_visible (fst r) \<Longrightarrow> dir_items_visible (fst (collect_loose stop_at fps r))"
proof (induction fps arbitrary: r)
  case Nil
  then show ?case by (cases r) simp
next
  case (Cons f fps)
  obtain a s where r: "r = (a, s)" by (cases r)
  have a: "dir_items_visible a" using Cons.prems by (simp add: r)
  show ?case
  proof (cases "getsize (fs (poll s)) f")
    case (Inl e)
    then show ?thesis using a by (simp add: r Let_def Cons.IH)
  next
    case (Inr sz)
    then show ?thesis using a by (simp add: r Let_def Cons.IH)
  qed
qed

text \<open>
  The part of C3 that holds: with \<^verbatim>\<open>skip_hidden\<close>, whenever the collection stops, no item
  that comes from a source directory has a segment starting with a dot in its relative
  path; the walk never enters a hidden directory below the source directory.
\<close>

theorem directory_items_visible:
  "skip_hidden cfg \<Longrightarrow> dir_items_visible (fst (collect_files cfg stop_at s))"
proof -
  assume sh: "skip_hidden cfg"
  obtain b r where c: "collect_dirs cfg stop_at (source_dirs cfg) ([], s) = (b, r)"
    by (cases "collect_dirs cfg stop_at (source_dirs cfg) ([], s)")
  have "dir_items_visible (fst r)"
    using visible_collect_dirs [OF sh, of "([], s)" stop_at "source_dirs cfg"] c
    by simp
  then show ?thesis
    by (cases b) (simp_all add: collect_files_def c visible_collect_loose)
qed

end
